theory Spec2Isabelle
  imports Main "HOL-Library.Word"
begin

unbundle bit_operations_syntax

section \<open>Types of the conversion unit\<close>

text \<open>
  The file \<open>src/half.c\<close> converts between IEEE-754 half, single and double precision by
  working on the raw bit patterns.  A half is read and written as a \<open>cmsUInt16Number\<close>, a
  single as a \<open>cmsUInt32Number\<close>, and a double as two adjacent \<open>cmsUInt32Number\<close> words.
  \<open>int\<close> and \<open>cmsInt32Number\<close> are 32 bits wide.
\<close>

type_synonym cmsUInt16Number = "16 word"
type_synonym cmsUInt32Number = "32 word"

text \<open>
  Modelled from the spec: \<open>cmsBool\<close>, \<open>TRUE\<close> and \<open>FALSE\<close> are declared in
  \<open>lcms2.h\<close>, which is not part of the sources at hand.  The spec calls the return value
  "a boolean success indicator", so \<open>cmsBool\<close> is \<open>bool\<close>, with \<open>TRUE\<close> the success.
  The identifier \<open>FLASE\<close> that line 107 stores into \<open>checkieee\<close> is declared nowhere in
  the sources at hand either; it is a parameter of \<open>singles2halfp\<close> below.
\<close>

type_synonym cmsBool = bool

abbreviation TRUE :: cmsBool where "TRUE \<equiv> True"
abbreviation FALSE :: cmsBool where "FALSE \<equiv> False"

text \<open>
  A pointer argument is either \<open>NULL\<close> (\<open>None\<close>) or the buffer it points to, seen as the
  list of elements of the width the routine casts it to.  Source and target never overlap.
\<close>

type_synonym 'a ptr = "'a list option"

section \<open>The loop bodies: one element\<close>

subsection \<open>Narrowing\<close>

text \<open>
  Lines 115--154.  \<open>hes\<close> is declared \<open>cmsUInt32Number\<close>: the \<open>int\<close> difference is
  stored into an unsigned variable, and every later comparison and subtraction on it is
  unsigned (word order and word arithmetic below).
\<close>

definition single2half :: "cmsUInt32Number \<Rightarrow> cmsUInt16Number" where
  "single2half x =
    (if x AND 0x7FFFFFFF = 0 then ucast (drop_bit 16 x)
     else
       let xs = x AND 0x80000000;
           xe = x AND 0x7F800000;
           xm = x AND 0x007FFFFF
       in if xe = 0 then ucast (drop_bit 16 xs)
          else if xe = 0x7F800000 then
            (if xm = 0 then ucast (drop_bit 16 xs OR 0x7C00) else 0xFE00)
          else
            let hs = (ucast (drop_bit 16 xs) :: cmsUInt16Number);
                hes = (drop_bit 23 xe - 127 + 15 :: cmsUInt32Number)
            in if hes \<ge> 0x1F then ucast (drop_bit 16 xs OR 0x7C00)
               else if hes \<le> 0 then
                 (let hm = (if 14 - hes > 24 then 0
                            else
                              let xm' = xm OR 0x00800000;
                                  hm' = (ucast (drop_bit (unat (14 - hes)) xm') :: cmsUInt16Number)
                              in if drop_bit (unat (13 - hes)) xm' AND 0x00000001 \<noteq> 0
                                 then hm' + 1 else hm')
                  in hs OR hm)
               else
                 let he = (ucast (push_bit 10 hes) :: cmsUInt16Number);
                     hm = (ucast (drop_bit 13 xm) :: cmsUInt16Number)
                 in if xm AND 0x00001000 \<noteq> 0 then (hs OR he OR hm) + 1
                    else hs OR he OR hm)"

text \<open>
  Lines 207--246, applied to the word \<open>x\<close> that \<open>*xp\<close> reads: the 32-bit word of the double
  that holds sign, exponent and the top 20 mantissa bits.
\<close>

definition double2half :: "cmsUInt32Number \<Rightarrow> cmsUInt16Number" where
  "double2half x =
    (if x AND 0x7FFFFFFF = 0 then ucast (drop_bit 16 x)
     else
       let xs = x AND 0x80000000;
           xe = x AND 0x7FF00000;
           xm = x AND 0x000FFFFF
       in if xe = 0 then ucast (drop_bit 16 xs)
          else if xe = 0x7FF00000 then
            (if xm = 0 then ucast (drop_bit 16 xs OR 0x7C00) else 0xFE00)
          else
            let hs = (ucast (drop_bit 16 xs) :: cmsUInt16Number);
                hes = (drop_bit 20 xe - 1023 + 15 :: cmsUInt32Number)
            in if hes \<ge> 0x1F then ucast (drop_bit 16 xs OR 0x7C00)
               else if hes \<le> 0 then
                 (let hm = (if 10 - hes > 21 then 0
                            else
                              let xm' = xm OR 0x00100000;
                                  hm' = (ucast (drop_bit (unat (11 - hes)) xm') :: cmsUInt16Number)
                              in if drop_bit (unat (10 - hes)) xm' AND 0x00000001 \<noteq> 0
                                 then hm' + 1 else hm')
                  in hs OR hm)
               else
                 let he = (ucast (push_bit 10 hes) :: cmsUInt16Number);
                     hm = (ucast (drop_bit 10 xm) :: cmsUInt16Number)
                 in if xm AND 0x00000200 \<noteq> 0 then (hs OR he OR hm) + 1
                    else hs OR he OR hm)"

subsection \<open>Widening\<close>

text \<open>
  The \<open>do \<dots> while\<close> loop of lines 306--309 and 390--393 (the same text in both widening
  routines): \<open>e\<close> counts the shifts, \<open>hm\<close> is shifted left inside 16 bits until bit 10 is
  set.  Nothing in the loop bounds the number of rounds, so the loop is a partial function:
  \<open>None\<close> stands for a loop that never ends.
\<close>

partial_function (option) normalize_loop ::
  "cmsUInt32Number \<Rightarrow> cmsUInt16Number \<Rightarrow> (cmsUInt32Number \<times> cmsUInt16Number) option" where
  "normalize_loop e hm =
    (let e' = e + 1;
         hm' = push_bit 1 hm
     in if hm' AND 0x0400 = 0 then normalize_loop e' hm' else Some (e', hm'))"

declare normalize_loop.simps [code]

text \<open>
  Lines 297--328.  \<open>e\<close> is a \<open>cmsUInt32Number\<close> that starts at \<open>-1\<close>, that is at
  \<open>0xFFFFFFFF\<close>.  \<open>xes\<close> is a \<open>cmsInt32Number\<close>; the model keeps its 32 bits, on which the
  subtraction of the unsigned \<open>e\<close> and the left shift give the same bits as in C.
\<close>

definition half2single :: "cmsUInt16Number \<Rightarrow> cmsUInt32Number option" where
  "half2single h =
    (if h AND 0x7FFF = 0 then Some (push_bit 16 (ucast h))
     else
       let hs = h AND 0x8000;
           he = h AND 0x7C00;
           hm = h AND 0x03FF
       in if he = 0 then
            (case normalize_loop (- 1) hm of
               None \<Rightarrow> None
             | Some (e, hm') \<Rightarrow>
                 let xs = (push_bit 16 (ucast hs) :: cmsUInt32Number);
                     xes = (ucast (drop_bit 10 he) - 15 + 127 - e :: cmsUInt32Number);
                     xe = push_bit 23 xes;
                     xm = (push_bit 13 (ucast (hm' AND 0x03FF)) :: cmsUInt32Number)
                 in Some (xs OR xe OR xm))
          else if he = 0x7C00 then
            (if hm = 0 then Some (push_bit 16 (ucast hs) OR 0x7F800000)
             else Some 0xFFC00000)
          else
            let xs = (push_bit 16 (ucast hs) :: cmsUInt32Number);
                xes = (ucast (drop_bit 10 he) - 15 + 127 :: cmsUInt32Number);
                xe = push_bit 23 xes;
                xm = (push_bit 13 (ucast hm) :: cmsUInt32Number)
            in Some (xs OR xe OR xm))"

text \<open>Lines 381--412: the word written through \<open>*xp\<close>.\<close>

definition half2double :: "cmsUInt16Number \<Rightarrow> cmsUInt32Number option" where
  "half2double h =
    (if h AND 0x7FFF = 0 then Some (push_bit 16 (ucast h))
     else
       let hs = h AND 0x8000;
           he = h AND 0x7C00;
           hm = h AND 0x03FF
       in if he = 0 then
            (case normalize_loop (- 1) hm of
               None \<Rightarrow> None
             | Some (e, hm') \<Rightarrow>
                 let xs = (push_bit 16 (ucast hs) :: cmsUInt32Number);
                     xes = (ucast (drop_bit 10 he) - 15 + 1023 - e :: cmsUInt32Number);
                     xe = push_bit 20 xes;
                     xm = (push_bit 10 (ucast (hm' AND 0x03FF)) :: cmsUInt32Number)
                 in Some (xs OR xe OR xm))
          else if he = 0x7C00 then
            (if hm = 0 then Some (push_bit 16 (ucast hs) OR 0x7FF00000)
             else Some 0xFFF80000)
          else
            let xs = (push_bit 16 (ucast hs) :: cmsUInt32Number);
                xes = (ucast (drop_bit 10 he) - 15 + 1023 :: cmsUInt32Number);
                xe = push_bit 20 xes;
                xm = (push_bit 10 (ucast hm) :: cmsUInt32Number)
            in Some (xs OR xe OR xm))"

section \<open>The host probe and the static variables\<close>

text \<open>
  \<open>double one = 1.0\<close> is read through a \<open>cmsUInt32Number\<close> pointer.  What the probe sees
  of the host is the pair of 32-bit words stored at the address of \<open>one\<close>.
\<close>

record host =
  one_word0 :: cmsUInt32Number
  one_word1 :: cmsUInt32Number

text \<open>
  Lines 98--103 choose \<open>next\<close> and the word \<open>*ip\<close> that line 104 compares with
  \<open>0x3FF00000\<close>.
\<close>

definition probe_next :: "host \<Rightarrow> cmsUInt32Number" where
  "probe_next hst = (if one_word0 hst \<noteq> 0 then 0 else 1)"

definition probe_word :: "host \<Rightarrow> cmsUInt32Number" where
  "probe_word hst = (if one_word0 hst \<noteq> 0 then one_word0 hst else one_word1 hst)"

definition ieee_ok :: "host \<Rightarrow> bool" where
  "ieee_ok hst = (probe_word hst = 0x3FF00000)"

text \<open>
  Every routine declares its own \<open>static cmsUInt32Number next\<close> and
  \<open>static cmsBool checkieee = TRUE\<close>; the eight variables live as long as the process.
  The four \<open>probes\<close> fields are not in the source: each counts how often the block
  \<open>if( checkieee ) { \<dots> }\<close> of its routine has been entered, so that "the probe runs"
  can be stated.  Nothing reads them.
\<close>

record statics =
  s2h_next :: cmsUInt32Number
  s2h_checkieee :: cmsBool
  s2h_probes :: nat
  d2h_next :: cmsUInt32Number
  d2h_checkieee :: cmsBool
  d2h_probes :: nat
  h2s_next :: cmsUInt32Number
  h2s_checkieee :: cmsBool
  h2s_probes :: nat
  h2d_next :: cmsUInt32Number
  h2d_checkieee :: cmsBool
  h2d_probes :: nat

definition init_statics :: statics where
  "init_statics =
    \<lparr> s2h_next = 0, s2h_checkieee = TRUE, s2h_probes = 0,
      d2h_next = 0, d2h_checkieee = TRUE, d2h_probes = 0,
      h2s_next = 0, h2s_checkieee = TRUE, h2s_probes = 0,
      h2d_next = 0, h2d_checkieee = TRUE, h2d_probes = 0 \<rparr>"

text \<open>
  The block of lines 96--108, 186--198, 279--291 and 361--373, on the routine's own
  \<open>(checkieee, next, probes)\<close>.  The text is the same in the four routines but for the
  value stored at the end (\<open>cleared\<close>: \<open>FLASE\<close> at line 107, \<open>FALSE\<close> elsewhere).  The
  first component of the result says whether the routine goes on (\<open>True\<close>) or has
  returned \<open>FALSE\<close> at line 105.
\<close>

definition check_ieee ::
  "cmsBool \<Rightarrow> host \<Rightarrow> cmsBool \<times> cmsUInt32Number \<times> nat \<Rightarrow>
     bool \<times> (cmsBool \<times> cmsUInt32Number \<times> nat)" where
  "check_ieee cleared hst v =
    (case v of (checkieee, nxt, probes) \<Rightarrow>
      if checkieee then
        (if probe_word hst \<noteq> 0x3FF00000
         then (False, (checkieee, probe_next hst, Suc probes))
         else (True, (cleared, probe_next hst, Suc probes)))
      else (True, (checkieee, nxt, probes)))"

section \<open>The loops\<close>

text \<open>
  \<open>while( numel-- )\<close> runs its body \<open>unat numel\<close> times.  Pointers into a buffer are
  indices; a read or write outside the buffer has no defined behaviour in C, and neither
  has a loop that does not end: both are \<open>None\<close>.
\<close>

fun s2h_loop ::
  "nat \<Rightarrow> cmsUInt32Number list \<Rightarrow> nat \<Rightarrow> cmsUInt16Number list \<Rightarrow> nat \<Rightarrow>
     cmsUInt16Number list option" where
  "s2h_loop 0 src xp tgt hp = Some tgt"
| "s2h_loop (Suc numel) src xp tgt hp =
    (if xp < length src \<and> hp < length tgt
     then s2h_loop numel src (Suc xp) (tgt[hp := single2half (src ! xp)]) (Suc hp)
     else None)"

text \<open>Line 207: \<open>x = *xp++; xp++;\<close> steps over the other word of the double.\<close>

fun d2h_loop ::
  "nat \<Rightarrow> cmsUInt32Number list \<Rightarrow> nat \<Rightarrow> cmsUInt16Number list \<Rightarrow> nat \<Rightarrow>
     cmsUInt16Number list option" where
  "d2h_loop 0 src xp tgt hp = Some tgt"
| "d2h_loop (Suc numel) src xp tgt hp =
    (if xp < length src \<and> hp < length tgt
     then d2h_loop numel src (Suc (Suc xp)) (tgt[hp := double2half (src ! xp)]) (Suc hp)
     else None)"

fun h2s_loop ::
  "nat \<Rightarrow> cmsUInt16Number list \<Rightarrow> nat \<Rightarrow> cmsUInt32Number list \<Rightarrow> nat \<Rightarrow>
     cmsUInt32Number list option" where
  "h2s_loop 0 src hp tgt xp = Some tgt"
| "h2s_loop (Suc numel) src hp tgt xp =
    (if hp < length src \<and> xp < length tgt
     then (case half2single (src ! hp) of
             None \<Rightarrow> None
           | Some x \<Rightarrow> h2s_loop numel src (Suc hp) (tgt[xp := x]) (Suc xp))
     else None)"

text \<open>Line 413: the extra \<open>xp++\<close> steps over the other word of the double.\<close>

fun h2d_loop ::
  "nat \<Rightarrow> cmsUInt16Number list \<Rightarrow> nat \<Rightarrow> cmsUInt32Number list \<Rightarrow> nat \<Rightarrow>
     cmsUInt32Number list option" where
  "h2d_loop 0 src hp tgt xp = Some tgt"
| "h2d_loop (Suc numel) src hp tgt xp =
    (if hp < length src \<and> xp < length tgt
     then (case half2double (src ! hp) of
             None \<Rightarrow> None
           | Some x \<Rightarrow> h2d_loop numel src (Suc hp) (tgt[xp := x]) (Suc (Suc xp)))
     else None)"

section \<open>The four routines\<close>

text \<open>
  A call takes the host, the static variables and the three arguments, and gives the
  return value, the static variables and the target buffer after the call.
\<close>

definition singles2halfp ::
  "cmsBool \<Rightarrow> host \<Rightarrow> statics \<Rightarrow> cmsUInt16Number ptr \<Rightarrow> cmsUInt32Number ptr \<Rightarrow>
     cmsUInt32Number \<Rightarrow> (cmsBool \<times> statics \<times> cmsUInt16Number ptr) option" where
  "singles2halfp FLASE hst st target source numel =
    (case check_ieee FLASE hst (s2h_checkieee st, s2h_next st, s2h_probes st) of
      (go, (c, n, p)) \<Rightarrow>
        let st' = st\<lparr>s2h_checkieee := c, s2h_next := n, s2h_probes := p\<rparr>
        in if \<not> go then Some (FALSE, st', target)
           else (case (source, target) of
                   (Some src, Some tgt) \<Rightarrow>
                     map_option (\<lambda>t. (TRUE, st', Some t)) (s2h_loop (unat numel) src 0 tgt 0)
                 | _ \<Rightarrow> Some (TRUE, st', target)))"

text \<open>Line 200: \<open>xp += next\<close> comes before the test for \<open>NULL\<close>; nothing is read there.\<close>

definition doubles2halfp ::
  "host \<Rightarrow> statics \<Rightarrow> cmsUInt16Number ptr \<Rightarrow> cmsUInt32Number ptr \<Rightarrow>
     cmsUInt32Number \<Rightarrow> (cmsBool \<times> statics \<times> cmsUInt16Number ptr) option" where
  "doubles2halfp hst st target source numel =
    (case check_ieee FALSE hst (d2h_checkieee st, d2h_next st, d2h_probes st) of
      (go, (c, n, p)) \<Rightarrow>
        let st' = st\<lparr>d2h_checkieee := c, d2h_next := n, d2h_probes := p\<rparr>
        in if \<not> go then Some (FALSE, st', target)
           else
             let xp = unat (d2h_next st')
             in (case (source, target) of
                   (Some src, Some tgt) \<Rightarrow>
                     map_option (\<lambda>t. (TRUE, st', Some t)) (d2h_loop (unat numel) src xp tgt 0)
                 | _ \<Rightarrow> Some (TRUE, st', target)))"

definition halfp2singles ::
  "host \<Rightarrow> statics \<Rightarrow> cmsUInt32Number ptr \<Rightarrow> cmsUInt16Number ptr \<Rightarrow>
     cmsUInt32Number \<Rightarrow> (cmsBool \<times> statics \<times> cmsUInt32Number ptr) option" where
  "halfp2singles hst st target source numel =
    (case check_ieee FALSE hst (h2s_checkieee st, h2s_next st, h2s_probes st) of
      (go, (c, n, p)) \<Rightarrow>
        let st' = st\<lparr>h2s_checkieee := c, h2s_next := n, h2s_probes := p\<rparr>
        in if \<not> go then Some (FALSE, st', target)
           else (case (source, target) of
                   (Some src, Some tgt) \<Rightarrow>
                     map_option (\<lambda>t. (TRUE, st', Some t)) (h2s_loop (unat numel) src 0 tgt 0)
                 | _ \<Rightarrow> Some (TRUE, st', target)))"

text \<open>Line 375: \<open>xp += next\<close>, as in \<open>doubles2halfp\<close>.\<close>

definition halfp2doubles ::
  "host \<Rightarrow> statics \<Rightarrow> cmsUInt32Number ptr \<Rightarrow> cmsUInt16Number ptr \<Rightarrow>
     cmsUInt32Number \<Rightarrow> (cmsBool \<times> statics \<times> cmsUInt32Number ptr) option" where
  "halfp2doubles hst st target source numel =
    (case check_ieee FALSE hst (h2d_checkieee st, h2d_next st, h2d_probes st) of
      (go, (c, n, p)) \<Rightarrow>
        let st' = st\<lparr>h2d_checkieee := c, h2d_next := n, h2d_probes := p\<rparr>
        in if \<not> go then Some (FALSE, st', target)
           else
             let xp = unat (h2d_next st')
             in (case (source, target) of
                   (Some src, Some tgt) \<Rightarrow>
                     map_option (\<lambda>t. (TRUE, st', Some t)) (h2d_loop (unat numel) src 0 tgt xp)
                 | _ \<Rightarrow> Some (TRUE, st', target)))"

section \<open>The life of a process\<close>

text \<open>
  The static variables a process can be in: those of the start, and those left by a call
  of one of the four routines, with any arguments, that came back.
\<close>

inductive reachable :: "cmsBool \<Rightarrow> host \<Rightarrow> statics \<Rightarrow> bool" for FLASE :: cmsBool and hst :: host where
  start: "reachable FLASE hst init_statics"
| after_singles2halfp:
    "reachable FLASE hst st \<Longrightarrow> singles2halfp FLASE hst st target16 source32 numel = Some (r, st', t16)
      \<Longrightarrow> reachable FLASE hst st'"
| after_doubles2halfp:
    "reachable FLASE hst st \<Longrightarrow> doubles2halfp hst st target16 source32 numel = Some (r, st', t16)
      \<Longrightarrow> reachable FLASE hst st'"
| after_halfp2singles:
    "reachable FLASE hst st \<Longrightarrow> halfp2singles hst st target32 source16 numel = Some (r, st', t32)
      \<Longrightarrow> reachable FLASE hst st'"
| after_halfp2doubles:
    "reachable FLASE hst st \<Longrightarrow> halfp2doubles hst st target32 source16 numel = Some (r, st', t32)
      \<Longrightarrow> reachable FLASE hst st'"

text \<open>Two hosts with IEEE-754 doubles, and one without.\<close>

definition little_endian_host :: host where
  "little_endian_host = \<lparr> one_word0 = 0, one_word1 = 0x3FF00000 \<rparr>"

definition big_endian_host :: host where
  "big_endian_host = \<lparr> one_word0 = 0x3FF00000, one_word1 = 0 \<rparr>"

definition vax_host :: host where
  "vax_host = \<lparr> one_word0 = 0x00004080, one_word1 = 0 \<rparr>"

section \<open>Vocabulary of the properties\<close>

text \<open>
  The caller's side of a call: when both pointers are set, the source holds \<open>numel\<close>
  elements of \<open>ws\<close> list cells each and the target \<open>numel\<close> elements of \<open>wt\<close> cells
  each (a double is two cells of a \<open>cmsUInt32Number\<close> buffer).
\<close>

definition fits :: "nat \<Rightarrow> 'a ptr \<Rightarrow> nat \<Rightarrow> 'b ptr \<Rightarrow> cmsUInt32Number \<Rightarrow> bool" where
  "fits ws source wt target numel =
    (case (source, target) of
       (Some src, Some tgt) \<Rightarrow> ws * unat numel \<le> length src \<and> wt * unat numel \<le> length tgt
     | _ \<Rightarrow> True)"


section \<open>Narrowing one element\<close>

lemma single_nan_nonzero:
  fixes x :: "32 word"
  assumes "x AND 0x7F800000 \<noteq> 0"
  shows "x AND 0x7FFFFFFF \<noteq> 0"
proof
  assume z: "x AND 0x7FFFFFFF = 0"
  have "x AND 0x7F800000 = (x AND 0x7FFFFFFF) AND 0x7F800000"
    by (simp add: and.assoc)
  with z assms show False by simp
qed

lemma single2half_nan:
  assumes "x AND 0x7F800000 = 0x7F800000" and "x AND 0x007FFFFF \<noteq> 0"
  shows "single2half x = 0xFE00"
proof -
  have "x AND 0x7F800000 \<noteq> 0" using assms(1) by simp
  then have "x AND 0x7FFFFFFF \<noteq> 0" by (rule single_nan_nonzero)
  then show ?thesis using assms by (simp add: single2half_def)
qed

lemma exp_field_le:
  fixes x :: "32 word"
  shows "drop_bit 23 (x AND 0x7F800000) \<le> 0xFF"
proof -
  have "drop_bit 23 (x AND 0x7F800000) = drop_bit 23 x AND 0xFF"
    by (simp add: bit_eq_iff bit_simps) 
  then show ?thesis by (simp add: word_and_le1)
qed

lemma single2half_overflow:
  assumes ne: "x AND 0x7F800000 \<noteq> 0" and nf: "x AND 0x7F800000 \<noteq> 0x7F800000"
    and big: "31 \<le> int (unat (drop_bit 23 (x AND 0x7F800000))) - 127 + 15"
  shows "single2half x = ucast (drop_bit 16 (x AND 0x80000000) OR 0x7C00)"
proof -
  define E where "E = drop_bit 23 (x AND 0x7F800000)"
  have le: "E \<le> 0xFF" unfolding E_def by (rule exp_field_le)
  have big': "143 \<le> unat E" using big unfolding E_def by linarith
  have "0x1F \<le> E - 127 + 15" using le big' by unat_arith
  moreover have "x AND 0x7FFFFFFF \<noteq> 0" using ne by (rule single_nan_nonzero)
  ultimately show ?thesis using ne nf by (simp add: single2half_def E_def Let_def)
qed

section \<open>The normalisation loop ends\<close>

lemma bit10_iff:
  fixes hm :: "16 word"
  shows "(hm AND 0x0400 = 0) \<longleftrightarrow> even (unat hm div 1024)"
proof -
  have "(hm AND 0x0400 = 0) \<longleftrightarrow> (hm AND 2 ^ 10 = 0)" by simp
  also have "\<dots> \<longleftrightarrow> \<not> bit hm 10" by (rule and_exp_eq_0_iff_not_bit)
  also have "bit hm 10 \<longleftrightarrow> bit (unat hm) 10" by (simp add: bit_unsigned_iff)
  also have "\<dots> \<longleftrightarrow> odd (unat hm div 1024)" by (simp add: bit_iff_odd)
  finally show ?thesis by simp
qed

lemma bit10_clear:
  fixes hm :: "16 word"
  assumes "unat hm < 1024"
  shows "hm AND 0x0400 = 0"
  using assms by (simp add: bit10_iff)

lemma bit10_set:
  fixes hm :: "16 word"
  assumes "1024 \<le> unat hm" and "unat hm < 2048"
  shows "hm AND 0x0400 \<noteq> 0"
proof -
  have "unat hm div 1024 = 1" using assms by arith
  then show ?thesis by (simp add: bit10_iff)
qed

lemma unat_double:
  fixes hm :: "16 word"
  assumes "unat hm < 1024"
  shows "unat (push_bit 1 hm) = 2 * unat hm"
proof -
  have "push_bit 1 hm = hm + hm" by (simp add: push_bit_eq_mult)
  then show ?thesis using assms by (simp add: unat_word_ariths)
qed

lemma normalize_loop_shift:
  "j \<le> 9 \<Longrightarrow> 2 ^ (9 - j) \<le> unat hm \<Longrightarrow> unat hm < 2 ^ (10 - j) \<Longrightarrow>
     normalize_loop e hm = Some (e + 1 + of_nat j, push_bit (Suc j) hm)"
proof (induction j arbitrary: e hm)
  case 0
  then have "unat hm < 1024" by simp
  then have dbl: "unat (push_bit 1 hm) = 2 * unat hm" by (rule unat_double)
  have "512 \<le> unat hm" using 0 by simp
  then have "1024 \<le> unat (push_bit 1 hm)" unfolding dbl by linarith
  moreover have "unat (push_bit 1 hm) < 2048" using \<open>unat hm < 1024\<close> unfolding dbl by linarith
  ultimately have "push_bit 1 hm AND 0x0400 \<noteq> 0" by (rule bit10_set)
  then show ?case by (subst normalize_loop.simps) (simp only: Let_def if_False, simp)
next
  case (Suc j)
  have lt: "unat hm < 2 ^ (9 - j)" using Suc.prems by (simp add: Suc_diff_le)
  have "(2::nat) ^ (9 - j) \<le> 2 ^ 9" by (rule power_increasing) simp_all
  with lt have small: "unat hm < 512" by simp
  then have "unat hm < 1024" by simp
  then have dbl: "unat (push_bit 1 hm) = 2 * unat hm" by (rule unat_double)
  have "unat (push_bit 1 hm) < 1024" using small unfolding dbl by linarith
  then have z: "push_bit 1 hm AND 0x0400 = 0" by (rule bit10_clear)
  have eq: "9 - j = Suc (9 - Suc j)" "10 - j = Suc (10 - Suc j)" using Suc.prems(1) by simp_all
  have lo: "2 ^ (9 - j) \<le> unat (push_bit 1 hm)"
    using Suc.prems(2) unfolding dbl eq by simp
  have hi: "unat (push_bit 1 hm) < 2 ^ (10 - j)"
    using Suc.prems(3) unfolding dbl eq by simp
  have "j \<le> 9" using Suc.prems(1) by simp
  from Suc.IH [OF this lo hi]
  have ih: "normalize_loop (e + 1) (push_bit 1 hm) = Some (e + 1 + 1 + of_nat j, push_bit (Suc j) (push_bit 1 hm))" .
  have pp: "push_bit (Suc j) (push_bit 1 hm) = push_bit (Suc (Suc j)) hm"
    by (simp add: push_bit_eq_mult)
  have ee: "e + 1 + 1 + of_nat j = e + 1 + of_nat (Suc j)" by simp
  show ?case
    by (subst normalize_loop.simps) (simp only: Let_def z ih pp ee, simp)
qed


lemma mantissa_range:
  fixes hm :: "16 word"
  assumes "hm \<noteq> 0" and "hm \<le> 0x03FF"
  shows "\<exists>j\<le>9. 2 ^ (9 - j) \<le> unat hm \<and> unat hm < 2 ^ (10 - j)"
proof -
  have pos: "0 < unat hm" using assms(1) by (simp add: unat_gt_0)
  have lt: "unat hm < 2 ^ 10" using assms(2) by (simp add: word_le_nat_alt)
  define b where "b = (LEAST k. unat hm < 2 ^ k)"
  have b1: "unat hm < 2 ^ b" unfolding b_def using lt by (rule LeastI)
  have b10: "b \<le> 10" unfolding b_def using lt by (rule Least_le)
  have bpos: "0 < b" using pos b1 by (cases b) simp_all
  have "\<not> unat hm < 2 ^ (b - 1)"
    using not_less_Least [of "b - 1" "\<lambda>k. unat hm < 2 ^ k"] bpos unfolding b_def by simp
  then have b2: "2 ^ (b - 1) \<le> unat hm" by simp
  have e1: "9 - (10 - b) = b - 1" and e2: "10 - (10 - b) = b" using b10 bpos by simp_all
  show ?thesis
    by (rule exI [of _ "10 - b"]) (use b1 b2 b10 bpos in \<open>simp only: e1 e2\<close>, simp)
qed

lemma normalize_loop_total:
  fixes hm :: "16 word"
  assumes "hm \<noteq> 0" and "hm \<le> 0x03FF"
  shows "\<exists>j\<le>9. normalize_loop e hm = Some (e + 1 + of_nat j, push_bit (Suc j) hm)"
  using mantissa_range [OF assms] normalize_loop_shift by blast

section \<open>Widening one element\<close>

lemma small_no_bit8:
  fixes w :: "32 word"
  assumes "unat w < 256"
  shows "\<not> bit w 8"
proof -
  have "bit w 8 \<longleftrightarrow> bit (unat w) 8" by (simp add: bit_unsigned_iff)
  also have "\<dots> \<longleftrightarrow> odd (unat w div 256)" by (simp add: bit_iff_odd)
  finally show ?thesis using assms by simp
qed

lemma unat_bias_minus:
  assumes "j \<le> 9" and that: "9 \<le> unat c"
  shows "unat (c - of_nat j :: 32 word) = unat c - j"
proof -
  have j: "unat (of_nat j :: 32 word) = j" using assms by (simp add: unat_of_nat)
  have "(of_nat j :: 32 word) \<le> c" using that assms j by (simp add: word_le_nat_alt)
  then show ?thesis by (simp add: unat_sub j)
qed

lemma single_exp_no_sign:
  assumes "j \<le> 9"
  shows "\<not> bit (push_bit 23 (0 - 15 + 127 - (- 1 + 1 + of_nat j) :: 32 word)) 31"
proof -
  have "unat (112 - of_nat j :: 32 word) = 112 - j"
    using unat_bias_minus [OF assms, of 112] by simp
  then have "\<not> bit (112 - of_nat j :: 32 word) 8" by (intro small_no_bit8) simp
  then show ?thesis by (simp add: bit_simps)
qed

lemma double_exp_no_sign:
  assumes "j \<le> 9"
  shows "\<not> bit (push_bit 20 (0 - 15 + 1023 - (- 1 + 1 + of_nat j) :: 32 word)) 31"
proof -
  have u: "unat (1008 - of_nat j :: 32 word) = 1008 - j"
    using unat_bias_minus [OF assms, of 1008] by simp
  have "bit (1008 - of_nat j :: 32 word) 11 \<longleftrightarrow> bit (unat (1008 - of_nat j :: 32 word)) 11"
    by (simp add: bit_unsigned_iff)
  also have "\<dots> \<longleftrightarrow> odd ((1008 - j) div 2048)" unfolding u by (simp add: bit_iff_odd)
  finally have "\<not> bit (1008 - of_nat j :: 32 word) 11" by simp
  then show ?thesis by (simp add: bit_simps)
qed

lemma half_mantissa_nonzero:
  fixes h :: "16 word"
  assumes "h AND 0x7FFF \<noteq> 0" and "h AND 0x7C00 = 0"
  shows "h AND 0x03FF \<noteq> 0"
proof
  assume z: "h AND 0x03FF = 0"
  have "h AND 0x7FFF = (h AND 0x7C00) OR (h AND 0x03FF)"
    by (simp flip: bit.conj_disj_distrib)
  with assms z show False by simp
qed

lemma half_exp_field_le:
  fixes h :: "16 word"
  shows "(ucast (drop_bit 10 (h AND 0x7C00)) :: 32 word) \<le> 0x1F"
proof -
  have "(ucast (drop_bit 10 (h AND 0x7C00)) :: 32 word) = ucast (drop_bit 10 h) AND 0x1F"
    by (auto simp: bit_eq_iff bit_simps dest: bit_imp_le_length)
  then show ?thesis by (simp add: word_and_le1)
qed

lemma norm_exp_no_sign_single:
  fixes h :: "16 word"
  shows "\<not> bit (push_bit 23 (ucast (drop_bit 10 (h AND 0x7C00)) - 15 + 127 :: 32 word)) 31"
proof -
  define E :: "32 word" where "E = ucast (drop_bit 10 (h AND 0x7C00))"
  have "E \<le> 0x1F" unfolding E_def by (rule half_exp_field_le)
  then have "unat (E - 15 + 127) < 256" by unat_arith
  then have "\<not> bit (E - 15 + 127) 8" by (rule small_no_bit8)
  then show ?thesis by (simp add: bit_simps E_def)
qed

lemma norm_exp_no_sign_double:
  fixes h :: "16 word"
  shows "\<not> bit (push_bit 20 (ucast (drop_bit 10 (h AND 0x7C00)) - 15 + 1023 :: 32 word)) 31"
proof -
  define E :: "32 word" where "E = ucast (drop_bit 10 (h AND 0x7C00))"
  have "E \<le> 0x1F" unfolding E_def by (rule half_exp_field_le)
  then have u: "unat (E - 15 + 1023) < 2048" by unat_arith
  have "bit (E - 15 + 1023) 11 \<longleftrightarrow> bit (unat (E - 15 + 1023)) 11"
    by (simp add: bit_unsigned_iff)
  also have "\<dots> \<longleftrightarrow> odd (unat (E - 15 + 1023) div 2048)" by (simp add: bit_iff_odd)
  finally have "\<not> bit (E - 15 + 1023) 11" using u by simp
  then show ?thesis by (simp add: bit_simps E_def)
qed

lemma half2single_denormal:
  assumes nz: "h AND 0x7FFF \<noteq> 0" and den: "h AND 0x7C00 = 0"
  shows "\<exists>x. half2single h = Some x \<and> (bit x 31 \<longleftrightarrow> bit h 15)"
proof -
  have "h AND 0x03FF \<noteq> 0" using nz den by (rule half_mantissa_nonzero)
  moreover have "h AND 0x03FF \<le> 0x03FF" by (rule word_and_le1)
  ultimately obtain j where j: "j \<le> 9"
    and loop: "normalize_loop (- 1) (h AND 0x03FF) = Some (- 1 + 1 + of_nat j, push_bit (Suc j) (h AND 0x03FF))"
    using normalize_loop_total by blast
  have s: "bit (h AND 0x8000) 15 \<longleftrightarrow> bit h 15" by (simp add: bit_simps)
  show ?thesis using nz den single_exp_no_sign [OF j] s
    by (simp add: half2single_def loop Let_def bit_simps del: push_bit_Suc)
qed

lemma half2double_denormal:
  assumes nz: "h AND 0x7FFF \<noteq> 0" and den: "h AND 0x7C00 = 0"
  shows "\<exists>x. half2double h = Some x \<and> (bit x 31 \<longleftrightarrow> bit h 15)"
proof -
  have "h AND 0x03FF \<noteq> 0" using nz den by (rule half_mantissa_nonzero)
  moreover have "h AND 0x03FF \<le> 0x03FF" by (rule word_and_le1)
  ultimately obtain j where j: "j \<le> 9"
    and loop: "normalize_loop (- 1) (h AND 0x03FF) = Some (- 1 + 1 + of_nat j, push_bit (Suc j) (h AND 0x03FF))"
    using normalize_loop_total by blast
  show ?thesis using nz den double_exp_no_sign [OF j]
    by (simp add: half2double_def loop Let_def bit_simps del: push_bit_Suc)
qed

lemma half2single_sign:
  assumes "\<not> (h AND 0x7C00 = 0x7C00 \<and> h AND 0x03FF \<noteq> 0)"
  shows "\<exists>x. half2single h = Some x \<and> (bit x 31 \<longleftrightarrow> bit h 15)"
proof (cases "h AND 0x7FFF = 0")
  case True
  then show ?thesis by (simp add: half2single_def bit_simps)
next
  case nz: False
  show ?thesis
  proof (cases "h AND 0x7C00 = 0")
    case True
    with nz show ?thesis by (rule half2single_denormal)
  next
    case False
    then show ?thesis using nz assms norm_exp_no_sign_single [of h]
      by (auto simp: half2single_def Let_def bit_simps)
  qed
qed

lemma half2double_sign:
  assumes "\<not> (h AND 0x7C00 = 0x7C00 \<and> h AND 0x03FF \<noteq> 0)"
  shows "\<exists>x. half2double h = Some x \<and> (bit x 31 \<longleftrightarrow> bit h 15)"
proof (cases "h AND 0x7FFF = 0")
  case True
  then show ?thesis by (simp add: half2double_def bit_simps)
next
  case nz: False
  show ?thesis
  proof (cases "h AND 0x7C00 = 0")
    case True
    with nz show ?thesis by (rule half2double_denormal)
  next
    case False
    then show ?thesis using nz assms norm_exp_no_sign_double [of h]
      by (auto simp: half2double_def Let_def bit_simps)
  qed
qed

lemma half2single_total: "\<exists>x. half2single h = Some x"
proof (cases "h AND 0x7C00 = 0x7C00 \<and> h AND 0x03FF \<noteq> 0")
  case True
  then have "h AND 0x7C00 \<noteq> 0" by simp
  moreover have "h AND 0x7FFF \<noteq> 0"
  proof
    assume z: "h AND 0x7FFF = 0"
    have "h AND 0x7C00 = (h AND 0x7FFF) AND 0x7C00" by (simp add: and.assoc)
    with z True show False by simp
  qed
  ultimately show ?thesis using True by (simp add: half2single_def)
next
  case False
  then show ?thesis using half2single_sign by blast
qed

lemma half2double_total: "\<exists>x. half2double h = Some x"
proof (cases "h AND 0x7C00 = 0x7C00 \<and> h AND 0x03FF \<noteq> 0")
  case True
  then have "h AND 0x7C00 \<noteq> 0" by simp
  moreover have "h AND 0x7FFF \<noteq> 0"
  proof
    assume z: "h AND 0x7FFF = 0"
    have "h AND 0x7C00 = (h AND 0x7FFF) AND 0x7C00" by (simp add: and.assoc)
    with z True show False by simp
  qed
  ultimately show ?thesis using True by (simp add: half2double_def)
next
  case False
  then show ?thesis using half2double_sign by blast
qed

section \<open>What the loops write\<close>

lemma s2h_loop_result:
  "xp + n \<le> length src \<Longrightarrow> hp + n \<le> length tgt \<Longrightarrow>
   \<exists>t. s2h_loop n src xp tgt hp = Some t \<and> length t = length tgt \<and>
     (\<forall>k<n. t ! (hp + k) = single2half (src ! (xp + k))) \<and>
     (\<forall>j. j < hp \<or> hp + n \<le> j \<longrightarrow> t ! j = tgt ! j)"
proof (induction n arbitrary: xp tgt hp)
  case 0
  then show ?case by simp
next
  case (Suc n)
  let ?tgt = "tgt[hp := single2half (src ! xp)]"
  have "Suc xp + n \<le> length src" "Suc hp + n \<le> length ?tgt" using Suc.prems by simp_all
  from Suc.IH [OF this] obtain t where t: "s2h_loop n src (Suc xp) ?tgt (Suc hp) = Some t"
    "length t = length ?tgt"
    "\<forall>k<n. t ! (Suc hp + k) = single2half (src ! (Suc xp + k))"
    "\<forall>j. j < Suc hp \<or> Suc hp + n \<le> j \<longrightarrow> t ! j = ?tgt ! j"
    by blast
  have run: "s2h_loop (Suc n) src xp tgt hp = Some t" using t(1) Suc.prems by simp
  have here: "t ! hp = single2half (src ! xp)" using t(4) [rule_format, of hp] Suc.prems by simp
  have new: "t ! (hp + k) = single2half (src ! (xp + k))" if "k < Suc n" for k
    using that here t(3) by (cases k) simp_all
  have old: "t ! j = tgt ! j" if "j < hp \<or> hp + Suc n \<le> j" for j
    using that t(4) [rule_format, of j] by auto
  have len: "length t = length tgt" using t(2) by simp
  show ?case
  proof (intro exI [of _ t] conjI allI impI)
    show "length t = length tgt" by (rule len)
  qed (use run new old in simp_all)
qed

lemma d2h_loop_result:
  "xp + 2 * n \<le> Suc (length src) \<Longrightarrow> hp + n \<le> length tgt \<Longrightarrow>
   \<exists>t. d2h_loop n src xp tgt hp = Some t \<and> length t = length tgt \<and>
     (\<forall>k<n. t ! (hp + k) = double2half (src ! (xp + 2 * k))) \<and>
     (\<forall>j. j < hp \<or> hp + n \<le> j \<longrightarrow> t ! j = tgt ! j)"
proof (induction n arbitrary: xp tgt hp)
  case 0
  then show ?case by simp
next
  case (Suc n)
  let ?tgt = "tgt[hp := double2half (src ! xp)]"
  have "Suc (Suc xp) + 2 * n \<le> Suc (length src)" "Suc hp + n \<le> length ?tgt"
    using Suc.prems by simp_all
  from Suc.IH [OF this] obtain t where t: "d2h_loop n src (Suc (Suc xp)) ?tgt (Suc hp) = Some t"
    "length t = length ?tgt"
    "\<forall>k<n. t ! (Suc hp + k) = double2half (src ! (Suc (Suc xp) + 2 * k))"
    "\<forall>j. j < Suc hp \<or> Suc hp + n \<le> j \<longrightarrow> t ! j = ?tgt ! j"
    by blast
  have run: "d2h_loop (Suc n) src xp tgt hp = Some t" using t(1) Suc.prems by simp
  have here: "t ! hp = double2half (src ! xp)" using t(4) [rule_format, of hp] Suc.prems by simp
  have new: "t ! (hp + k) = double2half (src ! (xp + 2 * k))" if "k < Suc n" for k
    using that here t(3) by (cases k) simp_all
  have old: "t ! j = tgt ! j" if "j < hp \<or> hp + Suc n \<le> j" for j
    using that t(4) [rule_format, of j] by auto
  have len: "length t = length tgt" using t(2) by simp
  show ?case
  proof (intro exI [of _ t] conjI allI impI)
    show "length t = length tgt" by (rule len)
  qed (use run new old in simp_all)
qed

lemma h2s_loop_result:
  "hp + n \<le> length src \<Longrightarrow> xp + n \<le> length tgt \<Longrightarrow>
   \<exists>t. h2s_loop n src hp tgt xp = Some t \<and> length t = length tgt \<and>
     (\<forall>k<n. half2single (src ! (hp + k)) = Some (t ! (xp + k))) \<and>
     (\<forall>j. j < xp \<or> xp + n \<le> j \<longrightarrow> t ! j = tgt ! j)"
proof (induction n arbitrary: hp tgt xp)
  case 0
  then show ?case by simp
next
  case (Suc n)
  obtain x where x: "half2single (src ! hp) = Some x" using half2single_total by blast
  let ?tgt = "tgt[xp := x]"
  have "Suc hp + n \<le> length src" "Suc xp + n \<le> length ?tgt" using Suc.prems by simp_all
  from Suc.IH [OF this] obtain t where t: "h2s_loop n src (Suc hp) ?tgt (Suc xp) = Some t"
    "length t = length ?tgt"
    "\<forall>k<n. half2single (src ! (Suc hp + k)) = Some (t ! (Suc xp + k))"
    "\<forall>j. j < Suc xp \<or> Suc xp + n \<le> j \<longrightarrow> t ! j = ?tgt ! j"
    by blast
  have run: "h2s_loop (Suc n) src hp tgt xp = Some t" using t(1) x Suc.prems by simp
  have here: "t ! xp = x" using t(4) [rule_format, of xp] Suc.prems by simp
  have new: "half2single (src ! (hp + k)) = Some (t ! (xp + k))" if "k < Suc n" for k
    using that here x t(3) by (cases k) simp_all
  have old: "t ! j = tgt ! j" if "j < xp \<or> xp + Suc n \<le> j" for j
    using that t(4) [rule_format, of j] by auto
  have len: "length t = length tgt" using t(2) by simp
  show ?case
  proof (intro exI [of _ t] conjI allI impI)
    show "length t = length tgt" by (rule len)
  qed (use run new old in simp_all)
qed

lemma h2d_loop_result:
  "hp + n \<le> length src \<Longrightarrow> xp + 2 * n \<le> Suc (length tgt) \<Longrightarrow>
   \<exists>t. h2d_loop n src hp tgt xp = Some t \<and> length t = length tgt \<and>
     (\<forall>k<n. half2double (src ! (hp + k)) = Some (t ! (xp + 2 * k))) \<and>
     (\<forall>j. (\<forall>k<n. j \<noteq> xp + 2 * k) \<longrightarrow> t ! j = tgt ! j)"
proof (induction n arbitrary: hp tgt xp)
  case 0
  then show ?case by simp
next
  case (Suc n)
  obtain x where x: "half2double (src ! hp) = Some x" using half2double_total by blast
  let ?tgt = "tgt[xp := x]"
  have "Suc hp + n \<le> length src" "Suc (Suc xp) + 2 * n \<le> Suc (length ?tgt)"
    using Suc.prems by simp_all
  from Suc.IH [OF this] obtain t where t: "h2d_loop n src (Suc hp) ?tgt (Suc (Suc xp)) = Some t"
    "length t = length ?tgt"
    "\<forall>k<n. half2double (src ! (Suc hp + k)) = Some (t ! (Suc (Suc xp) + 2 * k))"
    "\<forall>j. (\<forall>k<n. j \<noteq> Suc (Suc xp) + 2 * k) \<longrightarrow> t ! j = ?tgt ! j"
    by blast
  have run: "h2d_loop (Suc n) src hp tgt xp = Some t" using t(1) x Suc.prems by simp
  have here: "t ! xp = x" using t(4) [rule_format, of xp] Suc.prems by simp
  have new: "half2double (src ! (hp + k)) = Some (t ! (xp + 2 * k))" if "k < Suc n" for k
    using that here x t(3) by (cases k) simp_all
  have old: "t ! j = tgt ! j" if j: "\<forall>k<Suc n. j \<noteq> xp + 2 * k" for j
  proof -
    have "j \<noteq> xp" using j [rule_format, of 0] by simp
    moreover have "\<forall>k<n. j \<noteq> Suc (Suc xp) + 2 * k"
    proof (intro allI impI)
      fix k assume "k < n"
      then show "j \<noteq> Suc (Suc xp) + 2 * k" using j [rule_format, of "Suc k"] by simp
    qed
    ultimately show ?thesis using t(4) [rule_format, of j] by simp
  qed
  have len: "length t = length tgt" using t(2) by simp
  show ?case
  proof (intro exI [of _ t] conjI allI impI)
    show "length t = length tgt" by (rule len)
  qed (use run new old in simp_all)
qed

section \<open>What the routines do\<close>

lemma check_ieee_ok:
  "ieee_ok hst \<Longrightarrow>
     check_ieee c hst (f, n, p) = (True, if f then (c, probe_next hst, Suc p) else (f, n, p))"
  by (simp add: check_ieee_def ieee_ok_def)

lemma check_ieee_bad:
  "\<not> ieee_ok hst \<Longrightarrow>
     check_ieee c hst (f, n, p) = (if f then (False, (f, probe_next hst, Suc p)) else (True, (f, n, p)))"
  by (simp add: check_ieee_def ieee_ok_def)

lemma singles2halfp_ok:
  assumes "ieee_ok hst" and "unat numel \<le> length src" and "unat numel \<le> length tgt"
  shows "\<exists>st' t. singles2halfp FLASE hst st (Some tgt) (Some src) numel = Some (TRUE, st', Some t)
           \<and> length t = length tgt
           \<and> (\<forall>k<unat numel. t ! k = single2half (src ! k))
           \<and> (\<forall>j. unat numel \<le> j \<longrightarrow> t ! j = tgt ! j)"
proof -
  from s2h_loop_result [of 0 "unat numel" src 0 tgt] assms(2,3)
  obtain t where t: "s2h_loop (unat numel) src 0 tgt 0 = Some t" "length t = length tgt"
    "\<forall>k<unat numel. t ! k = single2half (src ! k)"
    "\<forall>j. unat numel \<le> j \<longrightarrow> t ! j = tgt ! j"
    by auto
  show ?thesis using t by (simp add: singles2halfp_def check_ieee_ok [OF assms(1)])
qed

lemma ieee_ok_little_endian_host: "ieee_ok little_endian_host"
  by (simp add: ieee_ok_def probe_word_def little_endian_host_def)

lemma probe_next_le: "unat (probe_next hst) \<le> 1"
  by (simp add: probe_next_def)

lemma doubles2halfp_ok:
  assumes "ieee_ok hst" and "d2h_checkieee st \<or> d2h_next st = probe_next hst"
    and "2 * unat numel \<le> length src" and "unat numel \<le> length tgt"
  shows "\<exists>st' t. doubles2halfp hst st (Some tgt) (Some src) numel = Some (TRUE, st', Some t)
           \<and> length t = length tgt
           \<and> (\<forall>k<unat numel. t ! k = double2half (src ! (unat (probe_next hst) + 2 * k)))
           \<and> (\<forall>j. unat numel \<le> j \<longrightarrow> t ! j = tgt ! j)"
proof -
  have "unat (probe_next hst) + 2 * unat numel \<le> Suc (length src)"
    using probe_next_le [of hst] assms(3) by linarith
  from d2h_loop_result [of "unat (probe_next hst)" "unat numel" src 0 tgt, OF this] assms(4)
  obtain t where t: "d2h_loop (unat numel) src (unat (probe_next hst)) tgt 0 = Some t"
    "length t = length tgt"
    "\<forall>k<unat numel. t ! k = double2half (src ! (unat (probe_next hst) + 2 * k))"
    "\<forall>j. unat numel \<le> j \<longrightarrow> t ! j = tgt ! j"
    by auto
  show ?thesis using t assms(2)
    by (auto simp: doubles2halfp_def check_ieee_ok [OF assms(1)])
qed

lemma halfp2singles_ok:
  assumes "ieee_ok hst" and "unat numel \<le> length src" and "unat numel \<le> length tgt"
  shows "\<exists>st' t. halfp2singles hst st (Some tgt) (Some src) numel = Some (TRUE, st', Some t)
           \<and> length t = length tgt
           \<and> (\<forall>k<unat numel. half2single (src ! k) = Some (t ! k))
           \<and> (\<forall>j. unat numel \<le> j \<longrightarrow> t ! j = tgt ! j)"
proof -
  from h2s_loop_result [of 0 "unat numel" src 0 tgt] assms(2,3)
  obtain t where t: "h2s_loop (unat numel) src 0 tgt 0 = Some t" "length t = length tgt"
    "\<forall>k<unat numel. half2single (src ! k) = Some (t ! k)"
    "\<forall>j. unat numel \<le> j \<longrightarrow> t ! j = tgt ! j"
    by auto
  show ?thesis using t by (simp add: halfp2singles_def check_ieee_ok [OF assms(1)])
qed

lemma halfp2doubles_ok:
  assumes "ieee_ok hst" and "h2d_checkieee st \<or> h2d_next st = probe_next hst"
    and "unat numel \<le> length src" and "2 * unat numel \<le> length tgt"
  shows "\<exists>st' t. halfp2doubles hst st (Some tgt) (Some src) numel = Some (TRUE, st', Some t)
           \<and> length t = length tgt
           \<and> (\<forall>k<unat numel. half2double (src ! k) = Some (t ! (unat (probe_next hst) + 2 * k)))
           \<and> (\<forall>j. (\<forall>k<unat numel. j \<noteq> unat (probe_next hst) + 2 * k) \<longrightarrow> t ! j = tgt ! j)"
proof -
  have "unat (probe_next hst) + 2 * unat numel \<le> Suc (length tgt)"
    using probe_next_le [of hst] assms(4) by linarith
  from h2d_loop_result [of 0 "unat numel" src "unat (probe_next hst)" tgt, OF _ this] assms(3)
  obtain t where t: "h2d_loop (unat numel) src 0 tgt (unat (probe_next hst)) = Some t"
    "length t = length tgt"
    "\<forall>k<unat numel. half2double (src ! k) = Some (t ! (unat (probe_next hst) + 2 * k))"
    "\<forall>j. (\<forall>k<unat numel. j \<noteq> unat (probe_next hst) + 2 * k) \<longrightarrow> t ! j = tgt ! j"
    by auto
  show ?thesis using t assms(2)
    by (auto simp: halfp2doubles_def check_ieee_ok [OF assms(1)])
qed

text \<open>What a call that comes back has done to the static variables, and what it returned.\<close>

lemma singles2halfp_statics:
  assumes "singles2halfp FLASE hst st target source numel = Some (r, st', t)"
  shows "st' = (if s2h_checkieee st
                then st\<lparr>s2h_checkieee := (if ieee_ok hst then FLASE else TRUE),
                        s2h_next := probe_next hst, s2h_probes := Suc (s2h_probes st)\<rparr>
                else st)"
    and "r = FALSE \<longleftrightarrow> \<not> ieee_ok hst \<and> s2h_checkieee st"
  using assms
  by (auto simp: singles2halfp_def check_ieee_def ieee_ok_def Let_def split: if_splits option.splits)

lemma doubles2halfp_statics:
  assumes "doubles2halfp hst st target source numel = Some (r, st', t)"
  shows "st' = (if d2h_checkieee st
                then st\<lparr>d2h_checkieee := (if ieee_ok hst then FALSE else TRUE),
                        d2h_next := probe_next hst, d2h_probes := Suc (d2h_probes st)\<rparr>
                else st)"
    and "r = FALSE \<longleftrightarrow> \<not> ieee_ok hst \<and> d2h_checkieee st"
  using assms
  by (auto simp: doubles2halfp_def check_ieee_def ieee_ok_def Let_def split: if_splits option.splits)

lemma halfp2singles_statics:
  assumes "halfp2singles hst st target source numel = Some (r, st', t)"
  shows "st' = (if h2s_checkieee st
                then st\<lparr>h2s_checkieee := (if ieee_ok hst then FALSE else TRUE),
                        h2s_next := probe_next hst, h2s_probes := Suc (h2s_probes st)\<rparr>
                else st)"
    and "r = FALSE \<longleftrightarrow> \<not> ieee_ok hst \<and> h2s_checkieee st"
  using assms
  by (auto simp: halfp2singles_def check_ieee_def ieee_ok_def Let_def split: if_splits option.splits)

lemma halfp2doubles_statics:
  assumes "halfp2doubles hst st target source numel = Some (r, st', t)"
  shows "st' = (if h2d_checkieee st
                then st\<lparr>h2d_checkieee := (if ieee_ok hst then FALSE else TRUE),
                        h2d_next := probe_next hst, h2d_probes := Suc (h2d_probes st)\<rparr>
                else st)"
    and "r = FALSE \<longleftrightarrow> \<not> ieee_ok hst \<and> h2d_checkieee st"
  using assms
  by (auto simp: halfp2doubles_def check_ieee_def ieee_ok_def Let_def split: if_splits option.splits)

lemma reachable_flags:
  assumes "reachable FLASE hst st"
  shows "(\<not> ieee_ok hst \<longrightarrow>
            s2h_checkieee st \<and> d2h_checkieee st \<and> h2s_checkieee st \<and> h2d_checkieee st)
       \<and> (d2h_checkieee st \<or> d2h_next st = probe_next hst)
       \<and> (h2d_checkieee st \<or> h2d_next st = probe_next hst)"
  using assms
proof (induction rule: reachable.induct)
  case start
  show ?case by (simp add: init_statics_def)
next
  case (after_singles2halfp st target16 source32 numel r st' t16)
  from singles2halfp_statics(1) [OF after_singles2halfp.hyps(2)] after_singles2halfp.IH
  show ?case by (simp split: if_splits)
next
  case (after_doubles2halfp st target16 source32 numel r st' t16)
  from doubles2halfp_statics(1) [OF after_doubles2halfp.hyps(2)] after_doubles2halfp.IH
  show ?case by (simp split: if_splits)
next
  case (after_halfp2singles st target32 source16 numel r st' t32)
  from halfp2singles_statics(1) [OF after_halfp2singles.hyps(2)] after_halfp2singles.IH
  show ?case by (simp split: if_splits)
next
  case (after_halfp2doubles st target32 source16 numel r st' t32)
  from halfp2doubles_statics(1) [OF after_halfp2doubles.hyps(2)] after_halfp2doubles.IH
  show ?case by (simp split: if_splits)
qed


section \<open>Further facts used by the claims\<close>

lemma and_pow31:
  fixes x :: "32 word"
  assumes "bit x 31"
  shows "x AND 2 ^ 31 = 2 ^ 31"
proof (rule bit_eqI)
  fix n
  show "bit (x AND 2 ^ 31) n \<longleftrightarrow> bit (2 ^ 31 :: 32 word) n"
    using assms by (auto simp only: bit_and_iff bit_exp_iff)
qed

lemma sign_mask_cases:
  fixes x :: "32 word"
  shows "x AND 0x80000000 = (if bit x 31 then 0x80000000 else 0)"
proof -
  have e: "(0x80000000 :: 32 word) = 2 ^ 31" by simp
  show ?thesis
  proof (cases "bit x 31")
    case True
    then have "x AND 2 ^ 31 = 2 ^ 31" by (rule and_pow31)
    with True show ?thesis unfolding e by simp
  next
    case False
    then have "x AND 2 ^ 31 = 0" using and_exp_eq_0_iff_not_bit [of x 31] by blast
    with False show ?thesis unfolding e by simp
  qed
qed

lemma signed_infinity:
  fixes x :: "32 word"
  shows "(ucast (drop_bit 16 (x AND 0x80000000) OR 0x7C00) :: 16 word) =
           (if bit x 31 then 0xFC00 else 0x7C00)"
  by (simp add: sign_mask_cases)

lemma singles2halfp_returns:
  assumes "\<not> ieee_ok hst \<longrightarrow> s2h_checkieee st" and "fits 1 source 1 target numel"
  shows "\<exists>r st' t. singles2halfp FLASE hst st target source numel = Some (r, st', t)
           \<and> (r = FALSE \<longleftrightarrow> \<not> ieee_ok hst)"
proof (cases "ieee_ok hst")
  case False
  with assms(1) show ?thesis
    by (auto simp: singles2halfp_def check_ieee_bad)
next
  case ok: True
  show ?thesis
  proof (cases "\<exists>src tgt. source = Some src \<and> target = Some tgt")
    case True
    then obtain src tgt where b: "source = Some src" "target = Some tgt" by blast
    with assms(2) have "unat numel \<le> length src" "unat numel \<le> length tgt"
      by (simp_all add: fits_def)
    from singles2halfp_ok [OF ok this] show ?thesis using ok unfolding b by blast
  next
    case False
    then have "source = None \<or> target = None" by (cases source; cases target) simp_all
    then show ?thesis using ok
      by (auto simp: singles2halfp_def Let_def check_ieee_ok [OF ok] split: option.splits)
  qed
qed

lemma halfp2singles_returns:
  assumes "\<not> ieee_ok hst \<longrightarrow> h2s_checkieee st" and "fits 1 source 1 target numel"
  shows "\<exists>r st' t. halfp2singles hst st target source numel = Some (r, st', t)
           \<and> (r = FALSE \<longleftrightarrow> \<not> ieee_ok hst)"
proof (cases "ieee_ok hst")
  case False
  with assms(1) show ?thesis
    by (auto simp: halfp2singles_def check_ieee_bad)
next
  case ok: True
  show ?thesis
  proof (cases "\<exists>src tgt. source = Some src \<and> target = Some tgt")
    case True
    then obtain src tgt where b: "source = Some src" "target = Some tgt" by blast
    with assms(2) have "unat numel \<le> length src" "unat numel \<le> length tgt"
      by (simp_all add: fits_def)
    from halfp2singles_ok [OF ok this] show ?thesis using ok unfolding b by blast
  next
    case False
    then have "source = None \<or> target = None" by (cases source; cases target) simp_all
    then show ?thesis using ok
      by (auto simp: halfp2singles_def Let_def check_ieee_ok [OF ok] split: option.splits)
  qed
qed

lemma doubles2halfp_returns:
  assumes "\<not> ieee_ok hst \<longrightarrow> d2h_checkieee st"
    and "d2h_checkieee st \<or> d2h_next st = probe_next hst"
    and "fits 2 source 1 target numel"
  shows "\<exists>r st' t. doubles2halfp hst st target source numel = Some (r, st', t)
           \<and> (r = FALSE \<longleftrightarrow> \<not> ieee_ok hst)"
proof (cases "ieee_ok hst")
  case False
  with assms(1) show ?thesis
    by (auto simp: doubles2halfp_def check_ieee_bad)
next
  case ok: True
  show ?thesis
  proof (cases "\<exists>src tgt. source = Some src \<and> target = Some tgt")
    case True
    then obtain src tgt where b: "source = Some src" "target = Some tgt" by blast
    with assms(3) have "2 * unat numel \<le> length src" "unat numel \<le> length tgt"
      by (simp_all add: fits_def)
    from doubles2halfp_ok [OF ok assms(2) this] show ?thesis using ok unfolding b by blast
  next
    case False
    then have "source = None \<or> target = None" by (cases source; cases target) simp_all
    then show ?thesis using ok
      by (auto simp: doubles2halfp_def Let_def check_ieee_ok [OF ok] split: option.splits)
  qed
qed

lemma halfp2doubles_returns:
  assumes "\<not> ieee_ok hst \<longrightarrow> h2d_checkieee st"
    and "h2d_checkieee st \<or> h2d_next st = probe_next hst"
    and "fits 1 source 2 target numel"
  shows "\<exists>r st' t. halfp2doubles hst st target source numel = Some (r, st', t)
           \<and> (r = FALSE \<longleftrightarrow> \<not> ieee_ok hst)"
proof (cases "ieee_ok hst")
  case False
  with assms(1) show ?thesis
    by (auto simp: halfp2doubles_def check_ieee_bad)
next
  case ok: True
  show ?thesis
  proof (cases "\<exists>src tgt. source = Some src \<and> target = Some tgt")
    case True
    then obtain src tgt where b: "source = Some src" "target = Some tgt" by blast
    with assms(3) have "unat numel \<le> length src" "2 * unat numel \<le> length tgt"
      by (simp_all add: fits_def)
    from halfp2doubles_ok [OF ok assms(2) this] show ?thesis using ok unfolding b by blast
  next
    case False
    then have "source = None \<or> target = None" by (cases source; cases target) simp_all
    then show ?thesis using ok
      by (auto simp: halfp2doubles_def Let_def check_ieee_ok [OF ok] split: option.splits)
  qed
qed

lemma not_ieee_ok_vax_host: "\<not> ieee_ok vax_host"
  by (simp add: ieee_ok_def probe_word_def vax_host_def)

lemma probe_next_cases: "unat (probe_next hst) = 0 \<or> unat (probe_next hst) = 1"
  by (simp add: probe_next_def)


lemma half_nan_nonzero:
  fixes h :: "16 word"
  assumes "h AND 0x7C00 = 0x7C00"
  shows "h AND 0x7FFF \<noteq> 0"
proof
  assume z: "h AND 0x7FFF = 0"
  have "h AND 0x7C00 = (h AND 0x7FFF) AND 0x7C00" by (simp add: and.assoc)
  with z assms show False by simp
qed

lemma half2single_nan:
  assumes "h AND 0x7C00 = 0x7C00" and "h AND 0x03FF \<noteq> 0"
  shows "half2single h = Some 0xFFC00000"
  using assms half_nan_nonzero [OF assms(1)] by (simp add: half2single_def)

lemma half2double_nan:
  assumes "h AND 0x7C00 = 0x7C00" and "h AND 0x03FF \<noteq> 0"
  shows "half2double h = Some 0xFFF80000"
  using assms half_nan_nonzero [OF assms(1)] by (simp add: half2double_def)

lemma canonical_nan_sign: "bit (0xFFC00000 :: 32 word) 31" "bit (0xFFF80000 :: 32 word) 31"
  by (simp_all add: bit_iff_odd_drop_bit)

lemma half2single_sign_unless_positive_nan:
  assumes "\<not> (h AND 0x7C00 = 0x7C00 \<and> h AND 0x03FF \<noteq> 0 \<and> \<not> bit h 15)"
  shows "\<exists>x. half2single h = Some x \<and> (bit x 31 \<longleftrightarrow> bit h 15)"
proof (cases "h AND 0x7C00 = 0x7C00 \<and> h AND 0x03FF \<noteq> 0")
  case True
  with assms have "bit h 15" by blast
  moreover from True have "half2single h = Some 0xFFC00000" by (simp add: half2single_nan)
  ultimately show ?thesis using canonical_nan_sign(1) by simp
next
  case False
  then show ?thesis by (rule half2single_sign)
qed

lemma half2double_sign_unless_positive_nan:
  assumes "\<not> (h AND 0x7C00 = 0x7C00 \<and> h AND 0x03FF \<noteq> 0 \<and> \<not> bit h 15)"
  shows "\<exists>x. half2double h = Some x \<and> (bit x 31 \<longleftrightarrow> bit h 15)"
proof (cases "h AND 0x7C00 = 0x7C00 \<and> h AND 0x03FF \<noteq> 0")
  case True
  with assms have "bit h 15" by blast
  moreover from True have "half2double h = Some 0xFFF80000" by (simp add: half2double_nan)
  ultimately show ?thesis using canonical_nan_sign(2) by simp
next
  case False
  then show ?thesis by (rule half2double_sign)
qed

section \<open>The claims\<close>

text \<open>
  C1.  The round trip through the wider format does not give back every finite half.  The
  smallest positive denormal \<open>0x0001\<close> widens to the single \<open>0x33800000\<close> and to the
  double whose sign and exponent word is \<open>0x3E700000\<close> (both are \<open>2^-24\<close>), and
  narrowing either of them writes \<open>0x7C00\<close>, plus infinity: the difference stored in the
  unsigned \<open>hes\<close> is negative, so the test \<open>hes >= 0x1F\<close> succeeds.
\<close>

theorem C1_round_trip_breaks_at_smallest_denormal:
  "(\<exists>st1 st2.
      halfp2singles little_endian_host init_statics (Some [0]) (Some [0x0001]) 1
        = Some (TRUE, st1, Some [0x33800000])
    \<and> singles2halfp FLASE little_endian_host st1 (Some [0]) (Some [0x33800000]) 1
        = Some (TRUE, st2, Some [0x7C00]))
   \<and> (\<exists>st1 st2.
      halfp2doubles little_endian_host init_statics (Some [0, 0]) (Some [0x0001]) 1
        = Some (TRUE, st1, Some [0, 0x3E700000])
    \<and> doubles2halfp little_endian_host st1 (Some [0]) (Some [0, 0x3E700000]) 1
        = Some (TRUE, st2, Some [0x7C00]))"
proof -
  have w1: "half2single 0x0001 = Some 0x33800000" by code_simp
  have w2: "half2double 0x0001 = Some 0x3E700000" by code_simp
  have n1: "single2half 0x33800000 = 0x7C00" by (simp add: single2half_def)
  have n2: "double2half 0x3E700000 = 0x7C00" by (simp add: double2half_def)
  show ?thesis
    by (simp add: halfp2singles_def singles2halfp_def halfp2doubles_def doubles2halfp_def
        check_ieee_def little_endian_host_def init_statics_def probe_word_def probe_next_def
        w1 w2 n1 n2)
qed

text \<open>
  C2.  On a host that passes the probe, every element of the source whose exponent field
  (bits 23--30) is all ones and whose mantissa field is not zero makes \<open>singles2halfp\<close>
  write \<open>0xFE00\<close> at the same position of the target, whatever the sign bit and the
  other mantissa bits are.
\<close>

theorem C2_single_nan_gives_FE00:
  assumes "ieee_ok hst" and "unat numel \<le> length src" and "unat numel \<le> length tgt"
    and "i < unat numel"
    and "src ! i AND 0x7F800000 = 0x7F800000" and "src ! i AND 0x007FFFFF \<noteq> 0"
  shows "\<exists>st' t. singles2halfp FLASE hst st (Some tgt) (Some src) numel = Some (TRUE, st', Some t)
           \<and> t ! i = 0xFE00"
proof -
  from singles2halfp_ok [OF assms(1-3)] obtain st' t
    where "singles2halfp FLASE hst st (Some tgt) (Some src) numel = Some (TRUE, st', Some t)"
      and "\<forall>k<unat numel. t ! k = single2half (src ! k)" by blast
  moreover have "single2half (src ! i) = 0xFE00" using assms(5,6) by (rule single2half_nan)
  ultimately show ?thesis using assms(4) by auto
qed

theorem C2_single_nan_gives_FE00_witness:
  "ieee_ok little_endian_host \<and> unat (2 :: 32 word) \<le> length [0x3F800000, 0xFFC12345 :: 32 word]
   \<and> [0x3F800000, 0xFFC12345 :: 32 word] ! 1 AND 0x7F800000 = 0x7F800000
   \<and> [0x3F800000, 0xFFC12345 :: 32 word] ! 1 AND 0x007FFFFF \<noteq> 0
   \<and> (\<exists>st' t. singles2halfp FALSE little_endian_host init_statics (Some [0, 0])
          (Some [0x3F800000, 0xFFC12345]) 2 = Some (TRUE, st', Some t) \<and> t ! 1 = 0xFE00)"
  using C2_single_nan_gives_FE00 [of little_endian_host 2 "[0x3F800000, 0xFFC12345]" "[0, 0]" 1 FALSE init_statics]
  by (simp add: ieee_ok_little_endian_host)

text \<open>
  The half \<open>0x7E00\<close> is a NaN with a clear sign bit; both widening routines write their
  fixed NaN pattern for it, whose sign bit is set.
\<close>

theorem C3_positive_nan_widens_with_sign_set:
  "(0x7E00 :: 16 word) AND 0x7FFF \<noteq> 0
   \<and> \<not> bit (0x7E00 :: 16 word) 15
   \<and> halfp2singles little_endian_host init_statics (Some [0]) (Some [0x7E00]) 1
       = Some (TRUE, init_statics\<lparr>h2s_next := 1, h2s_checkieee := FALSE, h2s_probes := 1\<rparr>,
               Some [0xFFC00000])
   \<and> bit (0xFFC00000 :: 32 word) 31
   \<and> halfp2doubles little_endian_host init_statics (Some [0, 0]) (Some [0x7E00]) 1
       = Some (TRUE, init_statics\<lparr>h2d_next := 1, h2d_checkieee := FALSE, h2d_probes := 1\<rparr>,
               Some [0, 0xFFF80000])
   \<and> bit (0xFFF80000 :: 32 word) 31"
proof -
  have w1: "half2single 0x7E00 = Some 0xFFC00000" by (simp add: half2single_def)
  have w2: "half2double 0x7E00 = Some 0xFFF80000" by (simp add: half2double_def)
  have b: "\<not> bit (0x7E00 :: 16 word) 15" "bit (0xFFC00000 :: 32 word) 31"
    "bit (0xFFF80000 :: 32 word) 31"
    by (simp_all add: bit_iff_odd_drop_bit)
  show ?thesis
    by (simp add: halfp2singles_def halfp2doubles_def
        check_ieee_def little_endian_host_def init_statics_def probe_word_def probe_next_def
        w1 w2 b)
qed

text \<open>
  C3, amended.  For every half of the source that is not zero (sign bit masked off) and is
  not a NaN with a clear sign bit, the word \<open>halfp2singles\<close> writes, and the sign and
  exponent word \<open>halfp2doubles\<close> writes, has in bit 31 the sign bit (bit 15) of the half.
  A NaN whose sign bit is set is among them: the fixed NaN patterns have bit 31 set.
\<close>

theorem C3_widening_keeps_sign_unless_positive_nan:
  assumes "reachable FLASE hst st" and "ieee_ok hst"
    and "unat numel \<le> length src" and "i < unat numel"
    and "src ! i AND 0x7FFF \<noteq> 0"
    and "\<not> (src ! i AND 0x7C00 = 0x7C00 \<and> src ! i AND 0x03FF \<noteq> 0 \<and> \<not> bit (src ! i) 15)"
  shows "(unat numel \<le> length tgt \<longrightarrow>
           (\<exists>st' t. halfp2singles hst st (Some tgt) (Some src) numel = Some (TRUE, st', Some t)
              \<and> (bit (t ! i) 31 \<longleftrightarrow> bit (src ! i) 15)))
       \<and> (2 * unat numel \<le> length tgt \<longrightarrow>
           (\<exists>st' t. halfp2doubles hst st (Some tgt) (Some src) numel = Some (TRUE, st', Some t)
              \<and> (bit (t ! (2 * i + unat (probe_next hst))) 31 \<longleftrightarrow> bit (src ! i) 15)))"
proof (intro conjI impI)
  assume len: "unat numel \<le> length tgt"
  from halfp2singles_ok [OF assms(2,3) len] obtain st' t
    where run: "halfp2singles hst st (Some tgt) (Some src) numel = Some (TRUE, st', Some t)"
      and el: "\<forall>k<unat numel. half2single (src ! k) = Some (t ! k)" by blast
  from half2single_sign_unless_positive_nan [OF assms(6)] el assms(4)
  have "bit (t ! i) 31 \<longleftrightarrow> bit (src ! i) 15" by auto
  with run show "\<exists>st' t. halfp2singles hst st (Some tgt) (Some src) numel = Some (TRUE, st', Some t)
              \<and> (bit (t ! i) 31 \<longleftrightarrow> bit (src ! i) 15)" by blast
next
  assume len: "2 * unat numel \<le> length tgt"
  have nx: "h2d_checkieee st \<or> h2d_next st = probe_next hst"
    using reachable_flags [OF assms(1)] by blast
  from halfp2doubles_ok [OF assms(2) nx assms(3) len] obtain st' t
    where run: "halfp2doubles hst st (Some tgt) (Some src) numel = Some (TRUE, st', Some t)"
      and el: "\<forall>k<unat numel. half2double (src ! k) = Some (t ! (unat (probe_next hst) + 2 * k))"
    by blast
  from half2double_sign_unless_positive_nan [OF assms(6)] el assms(4)
  have "bit (t ! (2 * i + unat (probe_next hst))) 31 \<longleftrightarrow> bit (src ! i) 15"
    by (auto simp: add.commute)
  with run show "\<exists>st' t. halfp2doubles hst st (Some tgt) (Some src) numel = Some (TRUE, st', Some t)
              \<and> (bit (t ! (2 * i + unat (probe_next hst))) 31 \<longleftrightarrow> bit (src ! i) 15)" by blast
qed

theorem C3_widening_keeps_sign_unless_positive_nan_witness:
  "reachable FALSE little_endian_host init_statics \<and> ieee_ok little_endian_host
   \<and> [0x8001, 0xFE01, 0x3C00 :: 16 word] ! 0 AND 0x7FFF \<noteq> 0
   \<and> [0x8001, 0xFE01, 0x3C00 :: 16 word] ! 1 AND 0x7FFF \<noteq> 0
   \<and> [0x8001, 0xFE01, 0x3C00 :: 16 word] ! 2 AND 0x7FFF \<noteq> 0
   \<and> [0x8001, 0xFE01, 0x3C00 :: 16 word] ! 0 AND 0x7C00 \<noteq> 0x7C00
   \<and> [0x8001, 0xFE01, 0x3C00 :: 16 word] ! 1 AND 0x7C00 = 0x7C00
   \<and> [0x8001, 0xFE01, 0x3C00 :: 16 word] ! 1 AND 0x03FF \<noteq> 0
   \<and> [0x8001, 0xFE01, 0x3C00 :: 16 word] ! 2 AND 0x7C00 \<noteq> 0x7C00
   \<and> bit ([0x8001, 0xFE01, 0x3C00 :: 16 word] ! 0) 15
   \<and> bit ([0x8001, 0xFE01, 0x3C00 :: 16 word] ! 1) 15
   \<and> \<not> bit ([0x8001, 0xFE01, 0x3C00 :: 16 word] ! 2) 15
   \<and> (\<exists>st' t. halfp2singles little_endian_host init_statics (Some [0, 0, 0])
          (Some [0x8001, 0xFE01, 0x3C00]) 3 = Some (TRUE, st', Some t)
        \<and> bit (t ! 0) 31 \<and> bit (t ! 1) 31 \<and> \<not> bit (t ! 2) 31)
   \<and> (\<exists>st' t. halfp2doubles little_endian_host init_statics (Some [0, 0, 0, 0, 0, 0])
          (Some [0x8001, 0xFE01, 0x3C00]) 3 = Some (TRUE, st', Some t)
        \<and> bit (t ! 1) 31 \<and> bit (t ! 3) 31 \<and> \<not> bit (t ! 5) 31)"
proof -
  have r: "reachable FALSE little_endian_host init_statics" by (rule reachable.start)
  have b: "bit (0x8001 :: 16 word) 15" "bit (0xFE01 :: 16 word) 15" "\<not> bit (0x3C00 :: 16 word) 15"
    by (simp_all add: bit_iff_odd_drop_bit)
  have n: "unat (probe_next little_endian_host) = 1"
    by (simp add: probe_next_def little_endian_host_def)
  note c = C3_widening_keeps_sign_unless_positive_nan [OF r ieee_ok_little_endian_host, of 3 "[0x8001, 0xFE01, 0x3C00]"]
  have s: "\<exists>st' t. halfp2singles little_endian_host init_statics (Some [0, 0, 0])
          (Some [0x8001, 0xFE01, 0x3C00]) 3 = Some (TRUE, st', Some t)
        \<and> bit (t ! 0) 31 \<and> bit (t ! 1) 31 \<and> \<not> bit (t ! 2) 31"
    using c [of 0 "[0, 0, 0]"] c [of 1 "[0, 0, 0]"] c [of 2 "[0, 0, 0]"] b
    by auto
  have d: "\<exists>st' t. halfp2doubles little_endian_host init_statics (Some [0, 0, 0, 0, 0, 0])
          (Some [0x8001, 0xFE01, 0x3C00]) 3 = Some (TRUE, st', Some t)
        \<and> bit (t ! 1) 31 \<and> bit (t ! 3) 31 \<and> \<not> bit (t ! 5) 31"
    using c [of 0 "[0, 0, 0, 0, 0, 0]"] c [of 1 "[0, 0, 0, 0, 0, 0]"] c [of 2 "[0, 0, 0, 0, 0, 0]"] b n
    by auto
  show ?thesis using r ieee_ok_little_endian_host b s d by simp
qed

text \<open>
  C4.  The single \<open>0x33800000\<close> (\<open>2^-24\<close>) is not narrowed to \<open>0x0001\<close>, and the single
  \<open>0x32800000\<close> (\<open>2^-26\<close>, below \<open>2^-25\<close>) is not narrowed to a zero: \<open>singles2halfp\<close>
  writes \<open>0x7C00\<close> for both.  The exponent difference is negative for them and is stored
  in the unsigned \<open>hes\<close>, so the test \<open>hes >= 0x1F\<close> of line 133 succeeds and the
  underflow branch of lines 135--144 is never reached with a negative \<open>hes\<close>.
\<close>

theorem C4_two_pow_minus_24_narrows_to_infinity:
  "single2half 0x33800000 = 0x7C00
   \<and> (\<exists>st'. singles2halfp FLASE little_endian_host init_statics (Some [0, 0])
          (Some [0x33800000, 0x32800000]) 2 = Some (TRUE, st', Some [0x7C00, 0x7C00]))"
proof -
  have n1: "single2half 0x33800000 = 0x7C00" by (simp add: single2half_def)
  have n2: "single2half 0x32800000 = 0x7C00" by (simp add: single2half_def)
  have lp: "s2h_loop 2 [0x33800000, 0x32800000] 0 [0, 0] 0 = Some [0x7C00, 0x7C00]"
    by (simp add: numeral_2_eq_2 n1 n2)
  show ?thesis
    by (simp add: singles2halfp_def check_ieee_def little_endian_host_def init_statics_def
        probe_word_def probe_next_def n1 lp)
qed

text \<open>
  C5.  On a host that passes the probe, every normalized element of the source (exponent
  field neither zero nor all ones) whose exponent field minus 127 plus 15 is at least 31
  makes \<open>singles2halfp\<close> write the infinity of its sign: \<open>0x7C00\<close> with the sign bit of the
  element in bit 15.
\<close>

theorem C5_overflow_gives_signed_infinity:
  assumes "ieee_ok hst" and "unat numel \<le> length src" and "unat numel \<le> length tgt"
    and "i < unat numel"
    and "src ! i AND 0x7F800000 \<noteq> 0" and "src ! i AND 0x7F800000 \<noteq> 0x7F800000"
    and "31 \<le> int (unat (drop_bit 23 (src ! i AND 0x7F800000))) - 127 + 15"
  shows "\<exists>st' t. singles2halfp FLASE hst st (Some tgt) (Some src) numel = Some (TRUE, st', Some t)
           \<and> t ! i = (if bit (src ! i) 31 then 0xFC00 else 0x7C00)"
proof -
  from singles2halfp_ok [OF assms(1-3)] obtain st' t
    where "singles2halfp FLASE hst st (Some tgt) (Some src) numel = Some (TRUE, st', Some t)"
      and "\<forall>k<unat numel. t ! k = single2half (src ! k)" by blast
  moreover have "single2half (src ! i) = (if bit (src ! i) 31 then 0xFC00 else 0x7C00)"
    using single2half_overflow [OF assms(5-7)] by (simp only: signed_infinity)
  ultimately show ?thesis using assms(4) by auto
qed

theorem C5_overflow_gives_signed_infinity_witness:
  "ieee_ok big_endian_host
   \<and> [0x47800000, 0xC7800000 :: 32 word] ! 1 AND 0x7F800000 \<noteq> 0
   \<and> [0x47800000, 0xC7800000 :: 32 word] ! 1 AND 0x7F800000 \<noteq> 0x7F800000
   \<and> 31 \<le> int (unat (drop_bit 23 ([0x47800000, 0xC7800000 :: 32 word] ! 1 AND 0x7F800000))) - 127 + 15
   \<and> (\<exists>st' t. singles2halfp FALSE big_endian_host init_statics (Some [0, 0])
          (Some [0x47800000, 0xC7800000]) 2 = Some (TRUE, st', Some t) \<and> t ! 1 = 0xFC00)"
proof -
  have ok: "ieee_ok big_endian_host"
    by (simp add: ieee_ok_def probe_word_def big_endian_host_def)
  show ?thesis
    using C5_overflow_gives_signed_infinity [of big_endian_host 2 "[0x47800000, 0xC7800000]" "[0, 0]" 1 FALSE init_statics] ok
    by simp
qed

text \<open>
  C6.  On a host that passes the probe, \<open>singles2halfp\<close> writes \<open>0x0000\<close> for the element
  \<open>0x00000000\<close> and \<open>0x8000\<close> for the element \<open>0x80000000\<close>.
\<close>

theorem C6_signed_zero_preserved:
  assumes "ieee_ok hst" and "unat numel \<le> length src" and "unat numel \<le> length tgt"
    and "i < unat numel"
  shows "\<exists>st' t. singles2halfp FLASE hst st (Some tgt) (Some src) numel = Some (TRUE, st', Some t)
           \<and> (src ! i = 0x00000000 \<longrightarrow> t ! i = 0x0000)
           \<and> (src ! i = 0x80000000 \<longrightarrow> t ! i = 0x8000)"
proof -
  from singles2halfp_ok [OF assms(1-3)] obtain st' t
    where "singles2halfp FLASE hst st (Some tgt) (Some src) numel = Some (TRUE, st', Some t)"
      and "\<forall>k<unat numel. t ! k = single2half (src ! k)" by blast
  moreover have "single2half 0x00000000 = 0x0000" "single2half 0x80000000 = 0x8000"
    by (simp_all add: single2half_def)
  ultimately show ?thesis using assms(4) by auto
qed

theorem C6_signed_zero_preserved_witness:
  "ieee_ok little_endian_host
   \<and> (\<exists>st' t. singles2halfp FALSE little_endian_host init_statics (Some [7, 7])
          (Some [0x00000000, 0x80000000]) 2 = Some (TRUE, st', Some t)
        \<and> t ! 0 = 0x0000 \<and> t ! 1 = 0x8000)"
  using C6_signed_zero_preserved [of little_endian_host 2 "[0x00000000, 0x80000000]" "[7, 7]" 0 FALSE init_statics]
    C6_signed_zero_preserved [of little_endian_host 2 "[0x00000000, 0x80000000]" "[7, 7]" 1 FALSE init_statics]
  by (auto simp: ieee_ok_little_endian_host)

text \<open>
  C7.  On a host that passes the probe, each of the four routines called with a \<open>NULL\<close>
  source or a \<open>NULL\<close> target returns \<open>TRUE\<close> and leaves the target as it was, whatever
  the element count and the static variables are.
\<close>

theorem C7_null_pointer_is_success:
  assumes "ieee_ok hst"
    and "source32 = None \<or> target16 = None"
    and "source16 = None \<or> target32 = None"
  shows "(\<exists>st'. singles2halfp FLASE hst st target16 source32 numel = Some (TRUE, st', target16))
       \<and> (\<exists>st'. doubles2halfp hst st target16 source32 numel = Some (TRUE, st', target16))
       \<and> (\<exists>st'. halfp2singles hst st target32 source16 numel = Some (TRUE, st', target32))
       \<and> (\<exists>st'. halfp2doubles hst st target32 source16 numel = Some (TRUE, st', target32))"
proof (intro conjI)
  show "\<exists>st'. singles2halfp FLASE hst st target16 source32 numel = Some (TRUE, st', target16)"
    using assms(2)
    by (auto simp: singles2halfp_def Let_def check_ieee_ok [OF assms(1)] split: option.splits)
  show "\<exists>st'. doubles2halfp hst st target16 source32 numel = Some (TRUE, st', target16)"
    using assms(2)
    by (auto simp: doubles2halfp_def Let_def check_ieee_ok [OF assms(1)] split: option.splits)
  show "\<exists>st'. halfp2singles hst st target32 source16 numel = Some (TRUE, st', target32)"
    using assms(3)
    by (auto simp: halfp2singles_def Let_def check_ieee_ok [OF assms(1)] split: option.splits)
  show "\<exists>st'. halfp2doubles hst st target32 source16 numel = Some (TRUE, st', target32)"
    using assms(3)
    by (auto simp: halfp2doubles_def Let_def check_ieee_ok [OF assms(1)] split: option.splits)
qed

theorem C7_null_pointer_is_success_witness:
  "ieee_ok big_endian_host
   \<and> (\<exists>st'. singles2halfp TRUE big_endian_host init_statics (Some [1, 2]) None 2
              = Some (TRUE, st', Some [1, 2]))
   \<and> (\<exists>st'. doubles2halfp big_endian_host init_statics (Some [1, 2]) None 2
              = Some (TRUE, st', Some [1, 2]))
   \<and> (\<exists>st'. halfp2singles big_endian_host init_statics None (Some [0x3C00]) 4294967295
              = Some (TRUE, st', None))
   \<and> (\<exists>st'. halfp2doubles big_endian_host init_statics None (Some [0x3C00]) 4294967295
              = Some (TRUE, st', None))"
proof -
  have ok: "ieee_ok big_endian_host"
    by (simp add: ieee_ok_def probe_word_def big_endian_host_def)
  show ?thesis
    using C7_null_pointer_is_success [OF ok, of None "Some [1, 2]" "Some [0x3C00]" None TRUE init_statics 2]
      C7_null_pointer_is_success [OF ok, of None "Some [1, 2]" "Some [0x3C00]" None TRUE init_statics 4294967295] ok
    by simp
qed

text \<open>
  C8.  At any moment of a process, a call of any of the four routines whose buffers hold
  the elements it is asked to convert comes back, and it returns \<open>FALSE\<close> exactly when the
  host fails the probe: on a host that passes it the call returns \<open>TRUE\<close>, whatever the
  elements are.
\<close>

theorem C8_false_iff_probe_fails:
  assumes "reachable FLASE hst st"
  shows "(fits 1 source32 1 target16 numel \<longrightarrow>
           (\<exists>r st' t. singles2halfp FLASE hst st target16 source32 numel = Some (r, st', t)
              \<and> (r = FALSE \<longleftrightarrow> \<not> ieee_ok hst)))
       \<and> (fits 2 source32 1 target16 numel \<longrightarrow>
           (\<exists>r st' t. doubles2halfp hst st target16 source32 numel = Some (r, st', t)
              \<and> (r = FALSE \<longleftrightarrow> \<not> ieee_ok hst)))
       \<and> (fits 1 source16 1 target32 numel \<longrightarrow>
           (\<exists>r st' t. halfp2singles hst st target32 source16 numel = Some (r, st', t)
              \<and> (r = FALSE \<longleftrightarrow> \<not> ieee_ok hst)))
       \<and> (fits 1 source16 2 target32 numel \<longrightarrow>
           (\<exists>r st' t. halfp2doubles hst st target32 source16 numel = Some (r, st', t)
              \<and> (r = FALSE \<longleftrightarrow> \<not> ieee_ok hst)))"
proof -
  note inv = reachable_flags [OF assms]
  from inv have f: "\<not> ieee_ok hst \<longrightarrow> s2h_checkieee st" "\<not> ieee_ok hst \<longrightarrow> d2h_checkieee st"
    "\<not> ieee_ok hst \<longrightarrow> h2s_checkieee st" "\<not> ieee_ok hst \<longrightarrow> h2d_checkieee st"
    and n: "d2h_checkieee st \<or> d2h_next st = probe_next hst"
      "h2d_checkieee st \<or> h2d_next st = probe_next hst"
    by blast+
  show ?thesis
    using singles2halfp_returns [OF f(1)] doubles2halfp_returns [OF f(2) n(1)]
      halfp2singles_returns [OF f(3)] halfp2doubles_returns [OF f(4) n(2)]
    by blast
qed

theorem C8_false_iff_probe_fails_witness:
  "reachable FALSE vax_host init_statics \<and> \<not> ieee_ok vax_host
   \<and> fits 1 (Some [0x3F800000, 0 :: 32 word]) 1 (Some [0 :: 16 word]) 1
   \<and> fits 2 (Some [0x3F800000, 0 :: 32 word]) 1 (Some [0 :: 16 word]) 1
   \<and> fits 1 (Some [0x3C00 :: 16 word]) 1 (Some [0, 0 :: 32 word]) 1
   \<and> fits 1 (Some [0x3C00 :: 16 word]) 2 (Some [0, 0 :: 32 word]) 1
   \<and> (\<exists>st' t. singles2halfp FALSE vax_host init_statics (Some [0]) (Some [0x3F800000, 0]) 1
                  = Some (FALSE, st', t))
   \<and> (\<exists>st' t. doubles2halfp vax_host init_statics (Some [0]) (Some [0x3F800000, 0]) 1
                  = Some (FALSE, st', t))
   \<and> (\<exists>st' t. halfp2singles vax_host init_statics (Some [0, 0]) (Some [0x3C00]) 1
                  = Some (FALSE, st', t))
   \<and> (\<exists>st' t. halfp2doubles vax_host init_statics (Some [0, 0]) (Some [0x3C00]) 1
                  = Some (FALSE, st', t))
   \<and> reachable FALSE little_endian_host init_statics \<and> ieee_ok little_endian_host
   \<and> (\<exists>st' t. singles2halfp FALSE little_endian_host init_statics (Some [0]) (Some [0x3F800000, 0]) 1
                  = Some (TRUE, st', t))
   \<and> (\<exists>st' t. doubles2halfp little_endian_host init_statics (Some [0]) (Some [0x3F800000, 0]) 1
                  = Some (TRUE, st', t))
   \<and> (\<exists>st' t. halfp2singles little_endian_host init_statics (Some [0, 0]) (Some [0x3C00]) 1
                  = Some (TRUE, st', t))
   \<and> (\<exists>st' t. halfp2doubles little_endian_host init_statics (Some [0, 0]) (Some [0x3C00]) 1
                  = Some (TRUE, st', t))"
proof -
  have r: "reachable FALSE vax_host init_statics" "reachable FALSE little_endian_host init_statics"
    by (rule reachable.start)+
  have f: "fits 1 (Some [0x3F800000, 0 :: 32 word]) 1 (Some [0 :: 16 word]) 1"
    "fits 2 (Some [0x3F800000, 0 :: 32 word]) 1 (Some [0 :: 16 word]) 1"
    "fits 1 (Some [0x3C00 :: 16 word]) 1 (Some [0, 0 :: 32 word]) 1"
    "fits 1 (Some [0x3C00 :: 16 word]) 2 (Some [0, 0 :: 32 word]) 1"
    by (simp_all add: fits_def)
  show ?thesis
    using C8_false_iff_probe_fails [OF r(1), of "Some [0x3F800000, 0]" "Some [0]" 1 "Some [0x3C00]" "Some [0, 0]"]
      C8_false_iff_probe_fails [OF r(2), of "Some [0x3F800000, 0]" "Some [0]" 1 "Some [0x3C00]" "Some [0, 0]"]
      r f not_ieee_ok_vax_host ieee_ok_little_endian_host
    by auto
qed




text \<open>
  C10.  On a host that passes the probe, at any moment of a process: two source buffers
  that agree on the sign and exponent word of each of the \<open>numel\<close> doubles make
  \<open>doubles2halfp\<close> write the same halves; and \<open>halfp2doubles\<close> leaves the other word of
  every double of the target as it was.  The sign and exponent word of double \<open>k\<close> is cell
  \<open>2 * k + next\<close> of the buffer, the other word is cell \<open>2 * k + 1 - next\<close>.
\<close>

theorem C10_only_sign_exponent_word:
  assumes "reachable FLASE hst st" and "ieee_ok hst"
  shows "(2 * unat numel \<le> length src \<and> length src' = length src \<and> unat numel \<le> length tgt16
            \<and> (\<forall>k<unat numel. src' ! (2 * k + unat (probe_next hst))
                                = src ! (2 * k + unat (probe_next hst)))
          \<longrightarrow> (\<exists>st' t. doubles2halfp hst st (Some tgt16) (Some src) numel = Some (TRUE, st', Some t)
                    \<and> doubles2halfp hst st (Some tgt16) (Some src') numel = Some (TRUE, st', Some t)))
       \<and> (unat numel \<le> length src16 \<and> 2 * unat numel \<le> length tgt32
          \<longrightarrow> (\<exists>st' t. halfp2doubles hst st (Some tgt32) (Some src16) numel = Some (TRUE, st', Some t)
                    \<and> length t = length tgt32
                    \<and> (\<forall>k. 2 * k + 1 < length tgt32 \<longrightarrow>
                          t ! (2 * k + 1 - unat (probe_next hst))
                            = tgt32 ! (2 * k + 1 - unat (probe_next hst)))))"
proof (intro conjI impI)
  assume a: "2 * unat numel \<le> length src \<and> length src' = length src \<and> unat numel \<le> length tgt16
            \<and> (\<forall>k<unat numel. src' ! (2 * k + unat (probe_next hst))
                                = src ! (2 * k + unat (probe_next hst)))"
  have nx: "d2h_checkieee st \<or> d2h_next st = probe_next hst"
    using reachable_flags [OF assms(1)] by blast
  from a have l: "2 * unat numel \<le> length src" "2 * unat numel \<le> length src'"
    "unat numel \<le> length tgt16" by simp_all
  from doubles2halfp_ok [OF assms(2) nx l(1,3)] obtain st1 t1
    where r1: "doubles2halfp hst st (Some tgt16) (Some src) numel = Some (TRUE, st1, Some t1)"
      and len1: "length t1 = length tgt16"
      and in1: "\<forall>k<unat numel. t1 ! k = double2half (src ! (unat (probe_next hst) + 2 * k))"
      and out1: "\<forall>j. unat numel \<le> j \<longrightarrow> t1 ! j = tgt16 ! j" by blast
  from doubles2halfp_ok [OF assms(2) nx l(2,3)] obtain st2 t2
    where r2: "doubles2halfp hst st (Some tgt16) (Some src') numel = Some (TRUE, st2, Some t2)"
      and len2: "length t2 = length tgt16"
      and in2: "\<forall>k<unat numel. t2 ! k = double2half (src' ! (unat (probe_next hst) + 2 * k))"
      and out2: "\<forall>j. unat numel \<le> j \<longrightarrow> t2 ! j = tgt16 ! j" by blast
  have st: "st2 = st1"
    using doubles2halfp_statics(1) [OF r1] doubles2halfp_statics(1) [OF r2] by simp
  have "t2 = t1"
  proof (rule nth_equalityI)
    show "length t2 = length t1" using len1 len2 by simp
  next
    fix j assume "j < length t2"
    show "t2 ! j = t1 ! j"
    proof (cases "j < unat numel")
      case True
      with a have "src' ! (unat (probe_next hst) + 2 * j) = src ! (unat (probe_next hst) + 2 * j)"
        by (simp add: add.commute)
      with True in1 in2 show ?thesis by simp
    next
      case False
      with out1 out2 show ?thesis by simp
    qed
  qed
  with r1 r2 st
  show "\<exists>st' t. doubles2halfp hst st (Some tgt16) (Some src) numel = Some (TRUE, st', Some t)
                    \<and> doubles2halfp hst st (Some tgt16) (Some src') numel = Some (TRUE, st', Some t)"
    by simp
next
  assume a: "unat numel \<le> length src16 \<and> 2 * unat numel \<le> length tgt32"
  have nx: "h2d_checkieee st \<or> h2d_next st = probe_next hst"
    using reachable_flags [OF assms(1)] by blast
  from a have l: "unat numel \<le> length src16" "2 * unat numel \<le> length tgt32" by simp_all
  from halfp2doubles_ok [OF assms(2) nx l] obtain st' t
    where r: "halfp2doubles hst st (Some tgt32) (Some src16) numel = Some (TRUE, st', Some t)"
      and len: "length t = length tgt32"
      and out: "\<forall>j. (\<forall>k<unat numel. j \<noteq> unat (probe_next hst) + 2 * k) \<longrightarrow> t ! j = tgt32 ! j"
    by blast
  have "t ! (2 * k + 1 - unat (probe_next hst)) = tgt32 ! (2 * k + 1 - unat (probe_next hst))" for k
  proof -
    have "2 * k + 1 - unat (probe_next hst) \<noteq> unat (probe_next hst) + 2 * k'" for k'
      using probe_next_cases [of hst] by presburger
    then show ?thesis using out by simp
  qed
  with r len
  show "\<exists>st' t. halfp2doubles hst st (Some tgt32) (Some src16) numel = Some (TRUE, st', Some t)
                    \<and> length t = length tgt32
                    \<and> (\<forall>k. 2 * k + 1 < length tgt32 \<longrightarrow>
                          t ! (2 * k + 1 - unat (probe_next hst))
                            = tgt32 ! (2 * k + 1 - unat (probe_next hst)))"
    by simp
qed

theorem C10_only_sign_exponent_word_witness:
  "reachable FALSE little_endian_host init_statics \<and> ieee_ok little_endian_host
   \<and> unat (probe_next little_endian_host) = 1
   \<and> (\<exists>st' t. doubles2halfp little_endian_host init_statics (Some [0, 0])
                  (Some [0x00000000, 0x3FF00000, 0x00000000, 0xC0000000]) 2 = Some (TRUE, st', Some t)
              \<and> doubles2halfp little_endian_host init_statics (Some [0, 0])
                  (Some [0xFFFFFFFF, 0x3FF00000, 0x12345678, 0xC0000000]) 2 = Some (TRUE, st', Some t))
   \<and> (\<exists>st' t. halfp2doubles little_endian_host init_statics (Some [0x11111111, 0, 0x22222222, 0])
                  (Some [0x3C00, 0xC000]) 2 = Some (TRUE, st', Some t)
              \<and> t ! 0 = 0x11111111 \<and> t ! 2 = 0x22222222)"
proof -
  have r: "reachable FALSE little_endian_host init_statics" by (rule reachable.start)
  have n: "unat (probe_next little_endian_host) = 1"
    by (simp add: probe_next_def little_endian_host_def)
  have eq: "\<forall>k<unat (2 :: 32 word).
      [0xFFFFFFFF, 0x3FF00000, 0x12345678, 0xC0000000 :: 32 word] ! (2 * k + unat (probe_next little_endian_host))
      = [0x00000000, 0x3FF00000, 0x00000000, 0xC0000000 :: 32 word] ! (2 * k + unat (probe_next little_endian_host))"
  proof (intro allI impI)
    fix k :: nat
    assume "k < unat (2 :: 32 word)"
    then have "k = 0 \<or> k = 1" by auto
    then show "[0xFFFFFFFF, 0x3FF00000, 0x12345678, 0xC0000000 :: 32 word] ! (2 * k + unat (probe_next little_endian_host))
      = [0x00000000, 0x3FF00000, 0x00000000, 0xC0000000 :: 32 word] ! (2 * k + unat (probe_next little_endian_host))"
      by (auto simp: n)
  qed
  note c = C10_only_sign_exponent_word [OF r ieee_ok_little_endian_host, of 2
      "[0x00000000, 0x3FF00000, 0x00000000, 0xC0000000]"
      "[0xFFFFFFFF, 0x3FF00000, 0x12345678, 0xC0000000]" "[0, 0]"
      "[0x3C00, 0xC000]" "[0x11111111, 0, 0x22222222, 0]"]
  from c eq have a: "\<exists>st' t. doubles2halfp little_endian_host init_statics (Some [0, 0])
                  (Some [0x00000000, 0x3FF00000, 0x00000000, 0xC0000000]) 2 = Some (TRUE, st', Some t)
              \<and> doubles2halfp little_endian_host init_statics (Some [0, 0])
                  (Some [0xFFFFFFFF, 0x3FF00000, 0x12345678, 0xC0000000]) 2 = Some (TRUE, st', Some t)"
    by simp
  from c obtain st' t where b: "halfp2doubles little_endian_host init_statics (Some [0x11111111, 0, 0x22222222, 0])
                  (Some [0x3C00, 0xC000]) 2 = Some (TRUE, st', Some t)"
    and u: "\<forall>k. 2 * k + 1 < 4 \<longrightarrow>
            t ! (2 * k + 1 - unat (probe_next little_endian_host))
            = [0x11111111, 0, 0x22222222, 0 :: 32 word] ! (2 * k + 1 - unat (probe_next little_endian_host))"
    by auto
  from u [rule_format, of 0] u [rule_format, of 1]
  have "t ! 0 = 0x11111111" "t ! 2 = 0x22222222" by (simp_all add: n)
  with b have "\<exists>st' t. halfp2doubles little_endian_host init_statics (Some [0x11111111, 0, 0x22222222, 0])
                  (Some [0x3C00, 0xC000]) 2 = Some (TRUE, st', Some t)
              \<and> t ! 0 = 0x11111111 \<and> t ! 2 = 0x22222222" by blast
  with a r n ieee_ok_little_endian_host show ?thesis by blast
qed

end
